theory Spec2Isabelle
  imports Complex_Main "HOL-Library.Multiset" "HOL-Library.Log_Nat"
begin

section \<open>JavaScript numbers\<close>

text \<open>
  The program computes with JavaScript numbers. They are modelled as the real numbers
  extended with the three special values the language has: the two infinities and NaN.
  In this section the rounding of binary floating point is left out: a finite result is
  the exact real result. The operations with rounding are those of the section on binary
  floating point below; the per-room shares, whose sum depends on the rounding, are
  studied with them. The sign of zero is not modelled. NaN is kept because the program's
  own logic depends on it (\<^verbatim>\<open>isNaN(+v)\<close>, \<^verbatim>\<open>h || 0\<close>, an invalid \<^verbatim>\<open>Date\<close>).
\<close>

datatype jsnum = Fin real | PInf | NInf | NaN

text \<open>The operator \<^verbatim>\<open>a + b\<close> on numbers.\<close>

fun js_add :: "jsnum \<Rightarrow> jsnum \<Rightarrow> jsnum" where
  "js_add NaN b = NaN"
| "js_add (Fin a) (Fin b) = Fin (a + b)"
| "js_add (Fin a) b = b"
| "js_add PInf b = (if b = NInf \<or> b = NaN then NaN else PInf)"
| "js_add NInf b = (if b = PInf \<or> b = NaN then NaN else NInf)"

text \<open>Unary minus and \<^verbatim>\<open>a - b\<close>.\<close>

fun js_neg :: "jsnum \<Rightarrow> jsnum" where
  "js_neg (Fin a) = Fin (- a)"
| "js_neg PInf = NInf"
| "js_neg NInf = PInf"
| "js_neg NaN = NaN"

definition js_sub :: "jsnum \<Rightarrow> jsnum \<Rightarrow> jsnum" where
  "js_sub a b = js_add a (js_neg b)"

text \<open>The sign of a number that is not NaN: \<open>-1\<close>, \<open>0\<close> or \<open>1\<close>.\<close>

fun js_sign :: "jsnum \<Rightarrow> int" where
  "js_sign (Fin a) = (if a < 0 then - 1 else if a = 0 then 0 else 1)"
| "js_sign PInf = 1"
| "js_sign NInf = - 1"
| "js_sign NaN = 0"

definition inf_of_sign :: "int \<Rightarrow> jsnum" where
  "inf_of_sign s = (if s = 0 then NaN else if 0 < s then PInf else NInf)"

text \<open>The operator \<^verbatim>\<open>a * b\<close>: infinity times zero is NaN.\<close>

fun js_mul :: "jsnum \<Rightarrow> jsnum \<Rightarrow> jsnum" where
  "js_mul NaN b = NaN"
| "js_mul a NaN = NaN"
| "js_mul (Fin a) (Fin b) = Fin (a * b)"
| "js_mul a b = inf_of_sign (js_sign a * js_sign b)"

text \<open>
  The operator \<^verbatim>\<open>a / b\<close>. A finite number divided by zero is an infinity (NaN for
  \<open>0 / 0\<close>); the zero divisor is taken as positive, since the sign of zero is not
  modelled. The program divides only by the constant 3600000 and by a room count of at
  least 1.
\<close>

fun js_div :: "jsnum \<Rightarrow> jsnum \<Rightarrow> jsnum" where
  "js_div NaN b = NaN"
| "js_div a NaN = NaN"
| "js_div (Fin a) (Fin b) = (if b = 0 then inf_of_sign (js_sign (Fin a)) else Fin (a / b))"
| "js_div (Fin a) b = Fin 0"
| "js_div a (Fin b) = inf_of_sign (js_sign a * (if b < 0 then - 1 else 1))"
| "js_div a b = NaN"

text \<open>The comparison \<^verbatim>\<open>a > b\<close>: false as soon as one side is NaN.\<close>

fun js_gt :: "jsnum \<Rightarrow> jsnum \<Rightarrow> bool" where
  "js_gt NaN b = False"
| "js_gt a NaN = False"
| "js_gt (Fin a) (Fin b) = (b < a)"
| "js_gt PInf b = (b \<noteq> PInf)"
| "js_gt a NInf = (a \<noteq> NInf)"
| "js_gt a b = False"

definition js_lt :: "jsnum \<Rightarrow> jsnum \<Rightarrow> bool" where
  "js_lt a b = js_gt b a"

text \<open>\<^verbatim>\<open>Math.max(a, b)\<close>: NaN as soon as one argument is NaN.\<close>

definition Math_max :: "jsnum \<Rightarrow> jsnum \<Rightarrow> jsnum" where
  "Math_max a b = (if a = NaN \<or> b = NaN then NaN else if js_gt b a then b else a)"

text \<open>Truthiness of a number, and \<^verbatim>\<open>x || y\<close> on numbers: zero and NaN are falsy.\<close>

definition js_truthy :: "jsnum \<Rightarrow> bool" where
  "js_truthy x = (x \<noteq> NaN \<and> x \<noteq> Fin 0)"

definition js_or :: "jsnum \<Rightarrow> jsnum \<Rightarrow> jsnum" where
  "js_or x y = (if js_truthy x then x else y)"

text \<open>\<^verbatim>\<open>isNaN\<close> on a number.\<close>

definition isNaN :: "jsnum \<Rightarrow> bool" where
  "isNaN x = (x = NaN)"

section \<open>Strings and the conversion of a string to a number\<close>

text \<open>
  Strings are lists of characters. The program's data (dates, clock times, calendar
  values, digits) is ASCII; on other characters the model works on bytes where
  JavaScript works on UTF-16 code units.
\<close>

definition is_digit :: "char \<Rightarrow> bool" where
  "is_digit c = (c \<in> set ''0123456789'')"

definition digit_val :: "char \<Rightarrow> nat" where
  "digit_val c = of_char c - 48"

definition dec_val :: "string \<Rightarrow> nat" where
  "dec_val s = foldl (\<lambda>n c. 10 * n + digit_val c) 0 s"

definition all_digits :: "string \<Rightarrow> bool" where
  "all_digits s = list_all is_digit s"

text \<open>White space that \<^verbatim>\<open>Number\<close> strips from both ends: TAB, LF, VT, FF, CR, SP.\<close>

definition js_ws :: "char \<Rightarrow> bool" where
  "js_ws c = (of_char c \<in> {9, 10, 11, 12, 13, 32 :: nat})"

definition js_trim :: "string \<Rightarrow> string" where
  "js_trim s = rev (dropWhile js_ws (rev (dropWhile js_ws s)))"

text \<open>The exponent part of a decimal literal: \<open>e\<close> or \<open>E\<close>, an optional sign, digits.\<close>

definition exp_digits :: "string \<Rightarrow> int option" where
  "exp_digits d = (if d \<noteq> [] \<and> all_digits d then Some (int (dec_val d)) else None)"

fun exponent_part :: "string \<Rightarrow> int option" where
  "exponent_part [] = Some 0"
| "exponent_part (c # t) =
     (if c = CHR ''e'' \<or> c = CHR ''E'' then
        (case t of
           [] \<Rightarrow> None
         | s # d \<Rightarrow>
             if s = CHR ''+'' then exp_digits d
             else if s = CHR ''-'' then map_option uminus (exp_digits d)
             else exp_digits t)
      else None)"

definition scale10 :: "real \<Rightarrow> int \<Rightarrow> real" where
  "scale10 x k = (if 0 \<le> k then x * 10 ^ nat k else x / 10 ^ nat (- k))"

text \<open>
  An unsigned decimal literal: \<^verbatim>\<open>Infinity\<close>, or digits with an optional fraction
  and an optional exponent, at least one digit before or after the point.
\<close>

definition str_unsigned_decimal :: "string \<Rightarrow> jsnum" where
  "str_unsigned_decimal s =
     (if s = ''Infinity'' then PInf
      else
        let ip = takeWhile is_digit s;
            r1 = dropWhile is_digit s;
            fp = (case r1 of [] \<Rightarrow> [] | c # t \<Rightarrow> if c = CHR ''.'' then takeWhile is_digit t else []);
            r2 = (case r1 of [] \<Rightarrow> [] | c # t \<Rightarrow> if c = CHR ''.'' then dropWhile is_digit t else r1)
        in if ip = [] \<and> fp = [] then NaN
           else (case exponent_part r2 of
                   None \<Rightarrow> NaN
                 | Some k \<Rightarrow>
                     Fin (scale10 (real (dec_val ip) + real (dec_val fp) / 10 ^ length fp) k)))"

text \<open>Binary, octal and hexadecimal integer literals (\<^verbatim>\<open>0b\<close>, \<^verbatim>\<open>0o\<close>, \<^verbatim>\<open>0x\<close>).\<close>

definition radix_digit :: "char \<Rightarrow> nat option" where
  "radix_digit c =
     (let n = of_char c :: nat in
      if 48 \<le> n \<and> n \<le> 57 then Some (n - 48)
      else if 97 \<le> n \<and> n \<le> 102 then Some (n - 87)
      else if 65 \<le> n \<and> n \<le> 70 then Some (n - 55)
      else None)"

definition radix_val :: "nat \<Rightarrow> string \<Rightarrow> jsnum" where
  "radix_val b ds =
     (if ds \<noteq> [] \<and> list_all (\<lambda>c. case radix_digit c of None \<Rightarrow> False | Some v \<Rightarrow> v < b) ds
      then Fin (real (foldl (\<lambda>n c. b * n + the (radix_digit c)) 0 ds))
      else NaN)"

definition non_decimal :: "string \<Rightarrow> jsnum option" where
  "non_decimal s =
     (case s of
        z # p # ds \<Rightarrow>
          if z \<noteq> CHR ''0'' then None
          else if p = CHR ''x'' \<or> p = CHR ''X'' then Some (radix_val 16 ds)
          else if p = CHR ''o'' \<or> p = CHR ''O'' then Some (radix_val 8 ds)
          else if p = CHR ''b'' \<or> p = CHR ''B'' then Some (radix_val 2 ds)
          else None
      | _ \<Rightarrow> None)"

text \<open>
  \<^verbatim>\<open>Number(s)\<close> and \<^verbatim>\<open>+s\<close> on a string: the white space is trimmed, the empty string
  is 0, a numeric literal is its value, anything else is NaN.
\<close>

definition StringToNumber :: "string \<Rightarrow> jsnum" where
  "StringToNumber s =
     (let t = js_trim s in
      case t of
        [] \<Rightarrow> Fin 0
      | c # r \<Rightarrow>
          if c = CHR ''+'' then str_unsigned_decimal r
          else if c = CHR ''-'' then js_neg (str_unsigned_decimal r)
          else (case non_decimal t of Some v \<Rightarrow> v | None \<Rightarrow> str_unsigned_decimal t))"

text \<open>\<^verbatim>\<open>s.split(c)\<close> with a one-character separator: the empty string gives one empty piece.\<close>

fun split_on :: "char \<Rightarrow> string \<Rightarrow> string list" where
  "split_on c [] = [[]]"
| "split_on c (x # xs) =
     (if x = c then [] # split_on c xs
      else (case split_on c xs of [] \<Rightarrow> [[x]] | p # ps \<Rightarrow> (x # p) # ps))"

text \<open>Reading an array element that may be absent: \<^verbatim>\<open>undefined\<close> is \<open>None\<close>.\<close>

definition at_index :: "'a list \<Rightarrow> nat \<Rightarrow> 'a option" where
  "at_index xs i = (if i < length xs then Some (xs ! i) else None)"

section \<open>Dates\<close>

text \<open>
  A \<^verbatim>\<open>Date\<close> object holds a time value: a whole number of milliseconds since the epoch
  in UTC, or NaN for an invalid date. The local time zone is a parameter \<open>tza\<close> of the
  model, an offset in milliseconds east of UTC that does not change over the year
  (daylight saving time is not modelled).
\<close>

datatype Date = InvalidDate | DateAt int

text \<open>
  Operations of the language that can end in an exception return a completion:
  \<open>Inl\<close> the exception, \<open>Inr\<close> the value. Constructing a \<^verbatim>\<open>Date\<close> from a string and
  reading a field of a \<^verbatim>\<open>Date\<close> complete normally on every input: an unparsable string
  gives an invalid date, and a field of an invalid date is NaN.
\<close>

datatype exn = TypeError | RangeError

definition msPerDay :: int where
  "msPerDay = 86400000"

definition TimeClip :: "int \<Rightarrow> Date" where
  "TimeClip t = (if \<bar>t\<bar> \<le> 8640000000000000 then DateAt t else InvalidDate)"

definition is_leap :: "int \<Rightarrow> bool" where
  "is_leap y = (y mod 4 = 0 \<and> (y mod 100 \<noteq> 0 \<or> y mod 400 = 0))"

definition days_in_month :: "int \<Rightarrow> int \<Rightarrow> int" where
  "days_in_month y m =
     (if m = 2 then (if is_leap y then 29 else 28)
      else if m = 4 \<or> m = 6 \<or> m = 9 \<or> m = 11 then 30 else 31)"

text \<open>
  The day number (days since 1970-01-01) of a date of the proleptic Gregorian calendar,
  month from 1 to 12, and the year of a day number.
\<close>

definition days_from_civil :: "int \<Rightarrow> int \<Rightarrow> int \<Rightarrow> int" where
  "days_from_civil y m d =
     (let y' = (if m \<le> 2 then y - 1 else y);
          era = y' div 400;
          yoe = y' - era * 400;
          mp = (if 2 < m then m - 3 else m + 9);
          doy = (153 * mp + 2) div 5 + d - 1;
          doe = yoe * 365 + yoe div 4 - yoe div 100 + doy
      in era * 146097 + doe - 719468)"

definition year_from_days :: "int \<Rightarrow> int" where
  "year_from_days z0 =
     (let z = z0 + 719468;
          era = z div 146097;
          doe = z - era * 146097;
          yoe = (doe - doe div 1460 + doe div 36524 - doe div 146096) div 365;
          doy = doe - (365 * yoe + yoe div 4 - yoe div 100);
          mp = (5 * doy + 2) div 153;
          m = (if mp < 10 then mp + 3 else mp - 9)
      in yoe + era * 400 + (if m \<le> 2 then 1 else 0))"

text \<open>
  \<^verbatim>\<open>MakeDay\<close> and \<^verbatim>\<open>MakeTime\<close> of the language: the month is an index from 0 that may
  lie outside 0..11 and then carries into the year; the day of the month may lie outside
  the month and then carries into the following days.
\<close>

definition MakeDay :: "int \<Rightarrow> int \<Rightarrow> int \<Rightarrow> int" where
  "MakeDay y m dt = days_from_civil (y + m div 12) (m mod 12 + 1) 1 + dt - 1"

definition MakeTime :: "int \<Rightarrow> int \<Rightarrow> int \<Rightarrow> int \<Rightarrow> int" where
  "MakeTime h m s ms = h * 3600000 + m * 60000 + s * 1000 + ms"

text \<open>A year from 0 to 99 given to the constructor or to \<^verbatim>\<open>Date.UTC\<close> means 1900 + year.\<close>

definition full_year :: "int \<Rightarrow> int" where
  "full_year y = (if 0 \<le> y \<and> y \<le> 99 then 1900 + y else y)"

text \<open>\<^verbatim>\<open>Date.UTC(y, m, d, hh, mm, ss)\<close> and \<^verbatim>\<open>new Date(t)\<close> on a number.\<close>

definition Date_UTC :: "int \<Rightarrow> int \<Rightarrow> int \<Rightarrow> int \<Rightarrow> int \<Rightarrow> int \<Rightarrow> int" where
  "Date_UTC y m d hh mm ss = MakeDay (full_year y) m d * msPerDay + MakeTime hh mm ss 0"

definition new_Date_value :: "int \<Rightarrow> Date" where
  "new_Date_value t = TimeClip t"

text \<open>\<^verbatim>\<open>new Date(y, m, d, hh, mm, ss)\<close>: the fields are local time.\<close>

definition new_Date_fields :: "int \<Rightarrow> int \<Rightarrow> int \<Rightarrow> int \<Rightarrow> int \<Rightarrow> int \<Rightarrow> int \<Rightarrow> Date" where
  "new_Date_fields tza y m d hh mm ss =
     TimeClip (MakeDay (full_year y) m d * msPerDay + MakeTime hh mm ss 0 - tza)"

text \<open>
  Parsing a date string. The model reads the two shapes of the date-time string format
  the program builds: \<^verbatim>\<open>YYYY-MM-DD\<close>, which the language takes as UTC, and
  \<^verbatim>\<open>YYYY-MM-DDTHH:mm:ss\<close>, which it takes as local time; a field out of range makes the
  date invalid. Every other string is an invalid date in the model (the other variants
  of the format, and the formats an engine accepts beyond it, are not modelled). Engines
  differ on a day of the month that the month does not have, such as 2024-02-30, which
  some carry into the following month; no result below is stated at such a date.
\<close>

definition iso_date_part :: "string \<Rightarrow> int option" where
  "iso_date_part s =
     (if length s = 10 \<and> all_digits (take 4 s) \<and> s ! 4 = CHR ''-'' \<and> all_digits (take 2 (drop 5 s))
         \<and> s ! 7 = CHR ''-'' \<and> all_digits (drop 8 s)
      then
        (let y = int (dec_val (take 4 s));
             m = int (dec_val (take 2 (drop 5 s)));
             d = int (dec_val (drop 8 s))
         in if 1 \<le> m \<and> m \<le> 12 \<and> 1 \<le> d \<and> d \<le> days_in_month y m
            then Some (days_from_civil y m d) else None)
      else None)"

definition iso_time_part :: "string \<Rightarrow> int option" where
  "iso_time_part s =
     (if length s = 8 \<and> all_digits (take 2 s) \<and> s ! 2 = CHR '':'' \<and> all_digits (take 2 (drop 3 s))
         \<and> s ! 5 = CHR '':'' \<and> all_digits (drop 6 s)
      then
        (let h = int (dec_val (take 2 s));
             m = int (dec_val (take 2 (drop 3 s)));
             sec = int (dec_val (drop 6 s))
         in if (h \<le> 23 \<and> m \<le> 59 \<and> sec \<le> 59) \<or> (h = 24 \<and> m = 0 \<and> sec = 0)
            then Some (MakeTime h m sec 0) else None)
      else None)"

definition Date_parse :: "int \<Rightarrow> string \<Rightarrow> Date" where
  "Date_parse tza s =
     (if length s = 10 then
        (case iso_date_part s of None \<Rightarrow> InvalidDate | Some day \<Rightarrow> TimeClip (day * msPerDay))
      else if length s = 19 \<and> s ! 10 = CHR ''T'' then
        (case (iso_date_part (take 10 s), iso_time_part (drop 11 s)) of
           (Some day, Some t) \<Rightarrow> TimeClip (day * msPerDay + t - tza)
         | _ \<Rightarrow> InvalidDate)
      else InvalidDate)"

definition new_Date :: "int \<Rightarrow> string \<Rightarrow> exn + Date" where
  "new_Date tza s = Inr (Date_parse tza s)"

text \<open>\<^verbatim>\<open>d.getTime()\<close> and \<^verbatim>\<open>d.getFullYear()\<close>: NaN on an invalid date, no exception.\<close>

definition getTime :: "Date \<Rightarrow> jsnum" where
  "getTime d = (case d of InvalidDate \<Rightarrow> NaN | DateAt t \<Rightarrow> Fin (real_of_int t))"

definition getFullYear :: "int \<Rightarrow> Date \<Rightarrow> exn + jsnum" where
  "getFullYear tza d =
     Inr (case d of
            InvalidDate \<Rightarrow> NaN
          | DateAt t \<Rightarrow> Fin (real_of_int (year_from_days ((t + tza) div msPerDay))))"

text \<open>
  \<^verbatim>\<open>d.setHours(h, m, 0, 0)\<close>: an invalid date stays invalid; an argument that is not
  finite makes the date invalid; otherwise the arguments are truncated towards zero and
  the time of day of the local day of \<open>d\<close> is replaced.
\<close>

definition js_trunc :: "real \<Rightarrow> int" where
  "js_trunc x = (if 0 \<le> x then \<lfloor>x\<rfloor> else \<lceil>x\<rceil>)"

definition setHours :: "int \<Rightarrow> Date \<Rightarrow> jsnum \<Rightarrow> jsnum \<Rightarrow> Date" where
  "setHours tza d h m =
     (case d of
        InvalidDate \<Rightarrow> InvalidDate
      | DateAt t \<Rightarrow>
          (case (h, m) of
             (Fin hr, Fin mr) \<Rightarrow>
               TimeClip (((t + tza) div msPerDay) * msPerDay
                         + MakeTime (js_trunc hr) (js_trunc mr) 0 0 - tza)
           | _ \<Rightarrow> InvalidDate))"

section \<open>Bookings\<close>

text \<open>
  The type \<^verbatim>\<open>Room\<close> is the closed enumeration of the six room names, \<^verbatim>\<open>Status\<close> that of
  the five status names; \<open>roomName\<close> gives the string a room is in the source.
\<close>

datatype Status = Taken | Booked | Canceled | On_hold | Free

datatype Room = Cafe | Hall | Backyard | Seminar_room | Conferences_room | Pavilion

fun roomName :: "Room \<Rightarrow> string" where
  "roomName Cafe = ''Cafe''"
| "roomName Hall = ''Hall''"
| "roomName Backyard = ''Backyard''"
| "roomName Seminar_room = ''Seminar room''"
| "roomName Conferences_room = ''Conferences room''"
| "roomName Pavilion = ''Pavilion''"

definition ROOMS :: "Room list" where
  "ROOMS = [Cafe, Hall, Backyard, Seminar_room, Conferences_room, Pavilion]"

text \<open>
  The type \<^verbatim>\<open>EventRow\<close>. The fields \<^verbatim>\<open>id\<close>, \<^verbatim>\<open>end\<close> and \<^verbatim>\<open>notes\<close> are renamed, their
  names being taken in Isabelle. \<^verbatim>\<open>rooms\<close> is an array, as in the source: it can repeat a room.
\<close>

record EventRow =
  ident :: "string option"
  name :: string
  date :: string
  start :: string
  end' :: string
  rooms :: "Room list"
  status :: Status
  guests :: jsnum
  rate :: jsnum
  day :: jsnum
  fee :: jsnum
  food :: jsnum
  drinks :: jsnum
  cancelReason :: "string option"
  notes' :: "string option"

section \<open>Utilities and valuation of one booking\<close>

text \<open>
  \<^verbatim>\<open>h || 0\<close> where \<open>h\<close> is an element of the array of parsed numbers, \<^verbatim>\<open>undefined\<close> when
  the array is too short.
\<close>

definition or_zero :: "jsnum option \<Rightarrow> jsnum" where
  "or_zero v = (case v of None \<Rightarrow> Fin 0 | Some x \<Rightarrow> js_or x (Fin 0))"

text \<open>
  \<^verbatim>\<open>parseTime\<close>. The body of the \<^verbatim>\<open>try\<close> is a completion; the \<^verbatim>\<open>catch\<close> branch is kept
  as the source has it.
\<close>

definition parseTime_try :: "int \<Rightarrow> string \<Rightarrow> string \<Rightarrow> exn + Date" where
  "parseTime_try tza dateStr timeStr =
     (let parts = map StringToNumber (split_on CHR '':'' (if timeStr = [] then ''0:0'' else timeStr));
          h = at_index parts 0;
          m = at_index parts 1
      in case new_Date tza (dateStr @ ''T00:00:00'') of
           Inl x \<Rightarrow> Inl x
         | Inr d \<Rightarrow> Inr (setHours tza d (or_zero h) (or_zero m)))"

definition parseTime :: "int \<Rightarrow> string \<Rightarrow> string \<Rightarrow> Date" where
  "parseTime tza dateStr timeStr =
     (case parseTime_try tza dateStr timeStr of
        Inr d \<Rightarrow> d
      | Inl x \<Rightarrow> Date_parse tza dateStr)"

definition durationHrs :: "int \<Rightarrow> EventRow \<Rightarrow> jsnum" where
  "durationHrs tza e =
     (let s = parseTime tza (date e) (start e);
          en = parseTime tza (date e) (end' e)
      in Math_max (Fin 0) (js_div (js_sub (getTime en) (getTime s)) (Fin 3600000)))"

definition rentalPart :: "int \<Rightarrow> EventRow \<Rightarrow> jsnum" where
  "rentalPart tza e =
     (if status e = Free then Fin 0
      else if js_gt (fee e) (Fin 0) then fee e
      else if js_gt (day e) (Fin 0) then day e
      else js_mul (rate e) (durationHrs tza e))"

definition revenueFor :: "int \<Rightarrow> EventRow \<Rightarrow> jsnum" where
  "revenueFor tza e =
     (let base = (if status e = Taken then rentalPart tza e else Fin 0)
      in js_add base (js_add (food e) (drinks e)))"

definition lostFor :: "int \<Rightarrow> EventRow \<Rightarrow> jsnum" where
  "lostFor tza e = (if status e \<noteq> Canceled then Fin 0 else rentalPart tza e)"

text \<open>
  \<^verbatim>\<open>yearOf\<close>: the result is a number or \<^verbatim>\<open>undefined\<close> (\<open>None\<close>); \<^verbatim>\<open>undefined\<close> is what the
  \<^verbatim>\<open>catch\<close> branch returns.
\<close>

definition yearOf :: "int \<Rightarrow> EventRow \<Rightarrow> jsnum option" where
  "yearOf tza e =
     (case new_Date tza (date e) of
        Inl x \<Rightarrow> None
      | Inr d \<Rightarrow> (case getFullYear tza d of Inl x \<Rightarrow> None | Inr y \<Rightarrow> Some y))"

section \<open>Per-room and per-year breakdown\<close>

record RoomStats =
  room_events :: nat
  room_revenue :: jsnum
  room_lost :: jsnum
  room_guests :: jsnum

definition zero_room :: RoomStats where
  "zero_room = \<lparr> room_events = 0, room_revenue = Fin 0, room_lost = Fin 0, room_guests = Fin 0 \<rparr>"

text \<open>\<^verbatim>\<open>ROOMS.forEach((r) => (map[r] = {events: 0, revenue: 0, lost: 0, guests: 0}))\<close>\<close>

definition perRoom_init :: "Room \<rightharpoonup> RoomStats" where
  "perRoom_init = fold (\<lambda>r m. m(r \<mapsto> zero_room)) ROOMS Map.empty"

text \<open>
  The body of the inner loop, for the booking \<open>e\<close> and one element \<open>r\<close> of its array of
  rooms: an entry is created when the room has none, then its four totals are updated.
  \<open>room_entry\<close> is the entry of a room, the zero totals when the room has none.
\<close>

definition room_entry :: "(Room \<rightharpoonup> RoomStats) \<Rightarrow> Room \<Rightarrow> RoomStats" where
  "room_entry m r = (case m r of None \<Rightarrow> zero_room | Some st \<Rightarrow> st)"

definition perRoom_room :: "EventRow \<Rightarrow> jsnum \<Rightarrow> jsnum \<Rightarrow> jsnum \<Rightarrow> Room
    \<Rightarrow> (Room \<rightharpoonup> RoomStats) \<Rightarrow> (Room \<rightharpoonup> RoomStats)" where
  "perRoom_room e n rent lost r m =
     (let cur = room_entry m r
      in m(r \<mapsto> cur\<lparr>
           room_events := room_events cur + 1,
           room_revenue := js_add (room_revenue cur) (if status e = Taken then js_div rent n else Fin 0),
           room_lost := js_add (room_lost cur) (js_div lost n),
           room_guests := js_add (room_guests cur)
                            (if status e = Taken then js_or (guests e) (Fin 0) else Fin 0) \<rparr>))"

text \<open>The body of the outer loop, for one booking.\<close>

definition perRoom_event :: "int \<Rightarrow> EventRow \<Rightarrow> (Room \<rightharpoonup> RoomStats) \<Rightarrow> (Room \<rightharpoonup> RoomStats)" where
  "perRoom_event tza e m =
     (let rs = (if rooms e \<noteq> [] then rooms e else []);
          n = Fin (real (max 1 (length rs)));
          rent = rentalPart tza e;
          lost = lostFor tza e
      in fold (perRoom_room e n rent lost) (if rs \<noteq> [] then rs else []) m)"

definition perRoom :: "int \<Rightarrow> EventRow list \<Rightarrow> (Room \<rightharpoonup> RoomStats)" where
  "perRoom tza filtered = fold (perRoom_event tza) filtered perRoom_init"

text \<open>The sum of a list of numbers, from the left, starting at 0.\<close>

definition js_sum :: "jsnum list \<Rightarrow> jsnum" where
  "js_sum xs = foldl js_add (Fin 0) xs"

record YearStats =
  year_events :: nat
  year_taken :: nat
  year_canceled :: nat
  year_revenue :: jsnum
  year_lost :: jsnum
  year_guests :: jsnum

definition zero_year :: YearStats where
  "zero_year = \<lparr> year_events = 0, year_taken = 0, year_canceled = 0, year_revenue = Fin 0,
     year_lost = Fin 0, year_guests = Fin 0 \<rparr>"

text \<open>
  \<^verbatim>\<open>String(x)\<close> on a number, for the numbers \<^verbatim>\<open>getFullYear\<close> returns: NaN and the
  integers (the infinities are added). The decimal expansion of a number that is not
  whole is not modelled and left unspecified.
\<close>

fun nat_digits :: "nat \<Rightarrow> string" where
  "nat_digits n = (if n < 10 then [char_of (48 + n)] else nat_digits (n div 10) @ [char_of (48 + n mod 10)])"

definition js_String :: "jsnum \<Rightarrow> string" where
  "js_String x =
     (case x of
        NaN \<Rightarrow> ''NaN''
      | PInf \<Rightarrow> ''Infinity''
      | NInf \<Rightarrow> ''-Infinity''
      | Fin v \<Rightarrow>
          if v = real_of_int \<lfloor>v\<rfloor>
          then (if v < 0 then ''-'' @ nat_digits (nat (- \<lfloor>v\<rfloor>)) else nat_digits (nat \<lfloor>v\<rfloor>))
          else undefined)"

text \<open>The key \<^verbatim>\<open>String(yearOf(e) ?? "\<emdash>")\<close>; the fallback is an em dash, three bytes in UTF-8.\<close>

definition em_dash :: string where
  "em_dash = [char_of (226 :: nat), char_of (128 :: nat), char_of (148 :: nat)]"

definition yearKey :: "int \<Rightarrow> EventRow \<Rightarrow> string" where
  "yearKey tza e = (case yearOf tza e of None \<Rightarrow> em_dash | Some y \<Rightarrow> js_String y)"

text \<open>
  The loop of \<^verbatim>\<open>perYear\<close>. The final sort of the entries by \<^verbatim>\<open>localeCompare\<close> depends on
  the locale and is not modelled.
\<close>

definition perYear_event :: "int \<Rightarrow> EventRow \<Rightarrow> (string \<rightharpoonup> YearStats) \<Rightarrow> (string \<rightharpoonup> YearStats)" where
  "perYear_event tza e m =
     (let y = yearKey tza e;
          cur = (case m y of None \<Rightarrow> zero_year | Some st \<Rightarrow> st)
      in m(y \<mapsto> cur\<lparr>
           year_events := year_events cur + 1,
           year_taken := (if status e = Taken then year_taken cur + 1 else year_taken cur),
           year_canceled := (if status e = Canceled then year_canceled cur + 1 else year_canceled cur),
           year_revenue := js_add (year_revenue cur) (revenueFor tza e),
           year_lost := js_add (year_lost cur) (lostFor tza e),
           year_guests := (if status e = Taken then js_add (year_guests cur) (js_or (guests e) (Fin 0))
                           else year_guests cur) \<rparr>))"

definition perYear :: "int \<Rightarrow> EventRow list \<Rightarrow> (string \<rightharpoonup> YearStats)" where
  "perYear tza filtered = fold (perYear_event tza) filtered Map.empty"

section \<open>Calendar import\<close>

text \<open>
  The regular expression \<^verbatim>\<open>/([0-9]{8})T([0-9]{2})([0-9]{2})([0-9]{2})(Z?)/\<close> has no
  anchor: \<^verbatim>\<open>match\<close> returns the leftmost place where it matches. \<open>dt_here\<close> says that it
  matches at the start of \<open>s\<close>; \<open>match_datetime\<close> searches from left to right and returns
  the five groups.
\<close>

definition dt_here :: "string \<Rightarrow> bool" where
  "dt_here s = (15 \<le> length s \<and> all_digits (take 8 s) \<and> s ! 8 = CHR ''T'' \<and> all_digits (take 6 (drop 9 s)))"

definition dt_groups :: "string \<Rightarrow> string \<times> string \<times> string \<times> string \<times> string" where
  "dt_groups s =
     (take 8 s, take 2 (drop 9 s), take 2 (drop 11 s), take 2 (drop 13 s),
      if 15 < length s \<and> s ! 15 = CHR ''Z'' then ''Z'' else [])"

fun match_datetime :: "string \<Rightarrow> (string \<times> string \<times> string \<times> string \<times> string) option" where
  "match_datetime [] = None"
| "match_datetime (c # t) = (if dt_here (c # t) then Some (dt_groups (c # t)) else match_datetime t)"

text \<open>
  \<^verbatim>\<open>asLocal\<close>. The argument is a string or \<^verbatim>\<open>undefined\<close>/\<^verbatim>\<open>null\<close> (\<open>None\<close>); the result is a
  \<^verbatim>\<open>Date\<close> or \<^verbatim>\<open>null\<close> (\<open>None\<close>). Unary plus is applied to strings of digits only, where it is
  the decimal value.
\<close>

definition asLocal :: "int \<Rightarrow> string option \<Rightarrow> Date option" where
  "asLocal tza v =
     (case v of
        None \<Rightarrow> None
      | Some dateStr \<Rightarrow>
          if dateStr = [] then None
          else if length dateStr = 8 \<and> all_digits dateStr then
            (let y = int (dec_val (take 4 dateStr));
                 m = int (dec_val (take 2 (drop 4 dateStr))) - 1;
                 d = int (dec_val (take 2 (drop 6 dateStr)))
             in Some (new_Date_fields tza y m d 0 0 0))
          else
            (case match_datetime dateStr of
               None \<Rightarrow> None
             | Some (g1, g2, g3, g4, g5) \<Rightarrow>
                 (let y = int (dec_val (take 4 g1));
                      mo = int (dec_val (take 2 (drop 4 g1))) - 1;
                      d = int (dec_val (take 2 (drop 6 g1)));
                      hh = int (dec_val g2);
                      mm = int (dec_val g3);
                      ss = int (dec_val g4)
                  in Some (if g5 = ''Z'' then new_Date_value (Date_UTC y mo d hh mm ss)
                           else new_Date_fields tza y mo d hh mm ss))))"

text \<open>The shapes the calendar format defines for a date and for a date-time.\<close>

definition is_date_shape :: "string \<Rightarrow> bool" where
  "is_date_shape s = (length s = 8 \<and> all_digits s)"

definition is_datetime_shape :: "string \<Rightarrow> bool" where
  "is_datetime_shape s =
     ((length s = 15 \<or> (length s = 16 \<and> s ! 15 = CHR ''Z''))
      \<and> all_digits (take 8 s) \<and> s ! 8 = CHR ''T'' \<and> all_digits (take 6 (drop 9 s)))"

text \<open>Local time of day of a valid date, in milliseconds since local midnight.\<close>

definition local_time_of_day :: "int \<Rightarrow> Date \<Rightarrow> int option" where
  "local_time_of_day tza d = (case d of InvalidDate \<Rightarrow> None | DateAt t \<Rightarrow> Some ((t + tza) mod msPerDay))"

text \<open>Room inference. A \<^verbatim>\<open>Set\<close> is a list without repetition, in insertion order.\<close>

record Rule =
  room :: Room
  kws :: "string list"

text \<open>\<^verbatim>\<open>toLowerCase\<close> on the letters A to Z; the other characters are left as they are.\<close>

definition to_lower :: "char \<Rightarrow> char" where
  "to_lower c = (let n = of_char c :: nat in if 65 \<le> n \<and> n \<le> 90 then char_of (n + 32) else c)"

definition toLowerCase :: "string \<Rightarrow> string" where
  "toLowerCase s = map to_lower s"

fun starts_with :: "string \<Rightarrow> string \<Rightarrow> bool" where
  "starts_with s [] = True"
| "starts_with [] (k # ks) = False"
| "starts_with (c # cs) (k # ks) = (c = k \<and> starts_with cs ks)"

fun str_includes :: "string \<Rightarrow> string \<Rightarrow> bool" where
  "str_includes [] k = (k = [])"
| "str_includes (c # cs) k = (starts_with (c # cs) k \<or> str_includes cs k)"

definition Set_add :: "'a \<Rightarrow> 'a list \<Rightarrow> 'a list" where
  "Set_add x hits = (if x \<in> set hits then hits else hits @ [x])"

definition guessRooms :: "string \<Rightarrow> string \<Rightarrow> Rule list \<Rightarrow> Room list" where
  "guessRooms summary location rules =
     (let hay = toLowerCase (summary @ '' '' @ location)
      in fold (\<lambda>r hits. if list_ex (\<lambda>k. str_includes hay k) (kws r) then Set_add (room r) hits else hits)
           rules [])"

section \<open>Sorting the filtered list\<close>

text \<open>
  The comparison \<^verbatim>\<open>a > b\<close> on strings compares code units from the left; a proper
  prefix is smaller.
\<close>

fun str_less :: "string \<Rightarrow> string \<Rightarrow> bool" where
  "str_less [] [] = False"
| "str_less [] (y # ys) = True"
| "str_less (x # xs) [] = False"
| "str_less (x # xs) (y # ys) = ((of_char x :: nat) < of_char y \<or> (x = y \<and> str_less xs ys))"

definition js_str_gt :: "string \<Rightarrow> string \<Rightarrow> bool" where
  "js_str_gt a b = str_less b a"

text \<open>The comparison function given to \<^verbatim>\<open>sort\<close>: \<^verbatim>\<open>(a, b) => (a.date > b.date ? 1 : -1)\<close>.\<close>

definition compareDate :: "EventRow \<Rightarrow> EventRow \<Rightarrow> int" where
  "compareDate a b = (if js_str_gt (date a) (date b) then 1 else - 1)"

text \<open>
  \<^verbatim>\<open>Array.prototype.sort\<close> is part of the engine. The language fixes its result only for
  a comparison function that is consistent, which requires that an element compares
  equal (0) to itself. The model below is the algorithm of the V8 engine
  (Chrome, Node.js) on an array of fewer than 64 elements: the run that starts the array
  is measured, reversed when it is strictly descending, and the remaining elements are
  placed by binary insertion. On longer arrays the engine merges several runs, which is
  not modelled (\<open>None\<close>).
\<close>

fun run_more :: "('a \<Rightarrow> 'a \<Rightarrow> int) \<Rightarrow> bool \<Rightarrow> 'a \<Rightarrow> 'a list \<Rightarrow> nat" where
  "run_more cmp desc prev [] = 0"
| "run_more cmp desc prev (x # xs) =
     (let order = cmp x prev
      in if (if desc then 0 \<le> order else order < 0) then 0
         else Suc (run_more cmp desc x xs))"

definition CountAndMakeRun :: "('a \<Rightarrow> 'a \<Rightarrow> int) \<Rightarrow> 'a list \<Rightarrow> nat \<times> 'a list" where
  "CountAndMakeRun cmp xs =
     (case xs of
        x0 # x1 # rest \<Rightarrow>
          (let desc = (cmp x1 x0 < 0);
               n = 2 + run_more cmp desc x1 rest
           in (n, (if desc then rev (take n xs) else take n xs) @ drop n xs))
      | _ \<Rightarrow> (length xs, xs))"

function insertion_point :: "('a \<Rightarrow> 'a \<Rightarrow> int) \<Rightarrow> 'a \<Rightarrow> 'a list \<Rightarrow> nat \<Rightarrow> nat \<Rightarrow> nat" where
  "insertion_point cmp pivot a left right =
     (if left < right then
        (let mid = left + (right - left) div 2
         in if cmp pivot (a ! mid) < 0 then insertion_point cmp pivot a left mid
            else insertion_point cmp pivot a (mid + 1) right)
      else left)"
  by pat_completeness auto
termination
  by (relation "measure (\<lambda>(cmp, pivot, a, left, right). right - left)") auto

fun BinaryInsertionSort :: "('a \<Rightarrow> 'a \<Rightarrow> int) \<Rightarrow> 'a list \<Rightarrow> 'a list \<Rightarrow> 'a list" where
  "BinaryInsertionSort cmp placed [] = placed"
| "BinaryInsertionSort cmp placed (pivot # rest) =
     (let left = insertion_point cmp pivot placed 0 (length placed)
      in BinaryInsertionSort cmp (take left placed @ pivot # drop left placed) rest)"

definition v8_sort :: "('a \<Rightarrow> 'a \<Rightarrow> int) \<Rightarrow> 'a list \<Rightarrow> 'a list option" where
  "v8_sort cmp xs =
     (if 64 \<le> length xs then None
      else if length xs < 2 then Some xs
      else (case CountAndMakeRun cmp xs of
              (n, ys) \<Rightarrow> Some (BinaryInsertionSort cmp (take n ys) (drop n ys))))"

text \<open>
  \<^verbatim>\<open>filtered\<close>: the bookings that pass the filter, sorted. The predicate of the filter
  uses a date library that is not part of the program and is a parameter here.
\<close>

definition filtered :: "(EventRow \<Rightarrow> bool) \<Rightarrow> EventRow list \<Rightarrow> EventRow list option" where
  "filtered passes events = v8_sort compareDate (filter passes events)"

section \<open>Coercion to a number\<close>

text \<open>
  The argument of \<^verbatim>\<open>toNum\<close> has the type \<^verbatim>\<open>any\<close>. The values are the primitive values of
  the language and the objects. An object is represented by what its conversion to a
  primitive gives when the conversion ends in a string, as it does for the arrays and
  objects read from JSON (\<open>Some\<close> the string), and by \<open>None\<close> when the object has neither a
  callable \<^verbatim>\<open>valueOf\<close> nor a callable \<^verbatim>\<open>toString\<close>, where the conversion raises.
\<close>

datatype jsval =
    JUndefined
  | JNull
  | JBool bool
  | JNum jsnum
  | JStr string
  | JSymbol
  | JBigInt int
  | JObj "string option"

text \<open>Unary plus, \<^verbatim>\<open>+v\<close>: a \<^verbatim>\<open>TypeError\<close> on a symbol, on a big integer, and on an object without conversion.\<close>

fun ToNumber :: "jsval \<Rightarrow> exn + jsnum" where
  "ToNumber JUndefined = Inr NaN"
| "ToNumber JNull = Inr (Fin 0)"
| "ToNumber (JBool b) = Inr (if b then Fin 1 else Fin 0)"
| "ToNumber (JNum x) = Inr x"
| "ToNumber (JStr s) = Inr (StringToNumber s)"
| "ToNumber JSymbol = Inl TypeError"
| "ToNumber (JBigInt n) = Inl TypeError"
| "ToNumber (JObj None) = Inl TypeError"
| "ToNumber (JObj (Some s)) = Inr (StringToNumber s)"

text \<open>
  \<^verbatim>\<open>toNum\<close>: \<^verbatim>\<open>v === null || v === undefined || v === "" || isNaN(+v) ? 0 : +v\<close>. The
  disjunction is evaluated from the left, so \<^verbatim>\<open>+v\<close> is not evaluated for the first three.
\<close>

definition toNum :: "jsval \<Rightarrow> exn + jsnum" where
  "toNum v =
     (if v = JNull \<or> v = JUndefined \<or> v = JStr [] then Inr (Fin 0)
      else (case ToNumber v of
              Inl x \<Rightarrow> Inl x
            | Inr n \<Rightarrow> if isNaN n then Inr (Fin 0) else ToNumber v))"

section \<open>Well-formed dates and clock times\<close>

text \<open>
  The type \<^verbatim>\<open>EventRow\<close> documents the date of a booking as \<^verbatim>\<open>yyyy-MM-dd\<close> and its start and
  end as \<^verbatim>\<open>HH:mm\<close>. A date of that form that exists in the calendar is one on which
  \<open>iso_date_part\<close> is defined; \<open>is_clock\<close> says that a string has the form \<^verbatim>\<open>HH:mm\<close>, and
  \<open>clock_minutes\<close> is the number of minutes it stands for.
\<close>

definition is_clock :: "string \<Rightarrow> bool" where
  "is_clock s = (length s = 5 \<and> all_digits (take 2 s) \<and> s ! 2 = CHR '':'' \<and> all_digits (drop 3 s))"

definition clock_minutes :: "string \<Rightarrow> int" where
  "clock_minutes s = 60 * int (dec_val (take 2 s)) + int (dec_val (drop 3 s))"

section \<open>Binary floating point\<close>

text \<open>
  A JavaScript number is a value of the binary64 format of IEEE 754, and the result of
  \<^verbatim>\<open>+\<close>, \<^verbatim>\<open>-\<close>, \<^verbatim>\<open>*\<close> and \<^verbatim>\<open>/\<close> is the exact result rounded to the nearest such value, a
  tie going to the value whose significand is even. \<open>round_even\<close> rounds a real number
  to the nearest integer in that way.
\<close>

definition round_even :: "real \<Rightarrow> int" where
  "round_even y =
     (let r = \<lfloor>y\<rfloor>; f = y - real_of_int r
      in if f < 1 / 2 then r else if 1 / 2 < f then r + 1 else if even r then r else r + 1)"

text \<open>
  The binary exponent of a positive real \<open>x\<close>: the integer \<open>e\<close> with
  \<open>2 ^ e \<le> x < 2 ^ (e + 1)\<close>, computed from the length in bits of the integer part of
  \<open>x\<close> when \<open>x\<close> is at least 1, and of the whole number \<open>\<lceil>1 / x\<rceil> - 1\<close> otherwise.
\<close>

definition bexp :: "real \<Rightarrow> int" where
  "bexp x =
     (if 1 \<le> x then int (floorlog 2 (nat \<lfloor>x\<rfloor>)) - 1
      else - int (floorlog 2 (nat (\<lceil>1 / x\<rceil> - 1))))"

text \<open>
  \<open>fl x\<close> is \<open>x\<close> rounded to a significand of 53 bits: a multiple of \<open>2 ^ (e - 52)\<close>, where
  \<open>e\<close> is the binary exponent of \<open>x\<close>, and of \<open>2 ^ (- 1074)\<close>, the spacing of the subnormal
  numbers, when \<open>x\<close> is below \<open>2 ^ (- 1022)\<close>. \<open>b64 x\<close> is the number an operation returns
  when its exact result is \<open>x\<close>: \<open>fl x\<close>, or an infinity when \<open>fl x\<close> reaches \<open>2 ^ 1024\<close>.
\<close>

definition fl :: "real \<Rightarrow> real" where
  "fl x =
     (if x = 0 then 0
      else (let e = max (bexp \<bar>x\<bar> - 52) (- 1074)
            in real_of_int (round_even (x / 2 powi e)) * 2 powi e))"

definition b64 :: "real \<Rightarrow> jsnum" where
  "b64 x = (let y = fl x in if 2 ^ 1024 \<le> y then PInf else if y \<le> - (2 ^ 1024) then NInf else Fin y)"

text \<open>The largest relative error of one rounding of a number that is not subnormal.\<close>

definition unit_roundoff :: real where
  "unit_roundoff = 1 / 2 ^ 53"

text \<open>
  The four operations with rounding. They are \<open>js_add\<close>, \<open>js_sub\<close>, \<open>js_mul\<close> and \<open>js_div\<close>
  with the finite result rounded; the cases with an infinity or NaN are the same.
\<close>

fun b64_add :: "jsnum \<Rightarrow> jsnum \<Rightarrow> jsnum" where
  "b64_add NaN b = NaN"
| "b64_add (Fin a) (Fin b) = b64 (a + b)"
| "b64_add (Fin a) b = b"
| "b64_add PInf b = (if b = NInf \<or> b = NaN then NaN else PInf)"
| "b64_add NInf b = (if b = PInf \<or> b = NaN then NaN else NInf)"

definition b64_sub :: "jsnum \<Rightarrow> jsnum \<Rightarrow> jsnum" where
  "b64_sub a b = b64_add a (js_neg b)"

fun b64_mul :: "jsnum \<Rightarrow> jsnum \<Rightarrow> jsnum" where
  "b64_mul NaN b = NaN"
| "b64_mul a NaN = NaN"
| "b64_mul (Fin a) (Fin b) = b64 (a * b)"
| "b64_mul a b = inf_of_sign (js_sign a * js_sign b)"

fun b64_div :: "jsnum \<Rightarrow> jsnum \<Rightarrow> jsnum" where
  "b64_div NaN b = NaN"
| "b64_div a NaN = NaN"
| "b64_div (Fin a) (Fin b) = (if b = 0 then inf_of_sign (js_sign (Fin a)) else b64 (a / b))"
| "b64_div (Fin a) b = Fin 0"
| "b64_div a (Fin b) = inf_of_sign (js_sign a * (if b < 0 then - 1 else 1))"
| "b64_div a b = NaN"

text \<open>
  \<^verbatim>\<open>durationHrs\<close>, \<^verbatim>\<open>rentalPart\<close>, \<^verbatim>\<open>lostFor\<close> and the loop of \<^verbatim>\<open>perRoom\<close> once more, every
  arithmetic operator of the source now being the operation with rounding. Nothing else
  differs from the definitions above.
\<close>

definition durationHrs_b64 :: "int \<Rightarrow> EventRow \<Rightarrow> jsnum" where
  "durationHrs_b64 tza e =
     (let s = parseTime tza (date e) (start e);
          en = parseTime tza (date e) (end' e)
      in Math_max (Fin 0) (b64_div (b64_sub (getTime en) (getTime s)) (Fin 3600000)))"

definition rentalPart_b64 :: "int \<Rightarrow> EventRow \<Rightarrow> jsnum" where
  "rentalPart_b64 tza e =
     (if status e = Free then Fin 0
      else if js_gt (fee e) (Fin 0) then fee e
      else if js_gt (day e) (Fin 0) then day e
      else b64_mul (rate e) (durationHrs_b64 tza e))"

definition lostFor_b64 :: "int \<Rightarrow> EventRow \<Rightarrow> jsnum" where
  "lostFor_b64 tza e = (if status e \<noteq> Canceled then Fin 0 else rentalPart_b64 tza e)"

definition perRoom_room_b64 :: "EventRow \<Rightarrow> jsnum \<Rightarrow> jsnum \<Rightarrow> jsnum \<Rightarrow> Room
    \<Rightarrow> (Room \<rightharpoonup> RoomStats) \<Rightarrow> (Room \<rightharpoonup> RoomStats)" where
  "perRoom_room_b64 e n rent lost r m =
     (let cur = room_entry m r
      in m(r \<mapsto> cur\<lparr>
           room_events := room_events cur + 1,
           room_revenue := b64_add (room_revenue cur) (if status e = Taken then b64_div rent n else Fin 0),
           room_lost := b64_add (room_lost cur) (b64_div lost n),
           room_guests := b64_add (room_guests cur)
                            (if status e = Taken then js_or (guests e) (Fin 0) else Fin 0) \<rparr>))"

definition perRoom_event_b64 :: "int \<Rightarrow> EventRow \<Rightarrow> (Room \<rightharpoonup> RoomStats) \<Rightarrow> (Room \<rightharpoonup> RoomStats)" where
  "perRoom_event_b64 tza e m =
     (let rs = (if rooms e \<noteq> [] then rooms e else []);
          n = Fin (real (max 1 (length rs)));
          rent = rentalPart_b64 tza e;
          lost = lostFor_b64 tza e
      in fold (perRoom_room_b64 e n rent lost) (if rs \<noteq> [] then rs else []) m)"

definition perRoom_b64 :: "int \<Rightarrow> EventRow list \<Rightarrow> (Room \<rightharpoonup> RoomStats)" where
  "perRoom_b64 tza bookings = fold (perRoom_event_b64 tza) bookings perRoom_init"

text \<open>The sum of a list of numbers, added from the left in binary64, starting at 0.\<close>

definition b64_sum :: "jsnum list \<Rightarrow> jsnum" where
  "b64_sum xs = foldl b64_add (Fin 0) xs"

section \<open>Example bookings\<close>

definition booking_A :: EventRow where
  "booking_A = \<lparr> ident = None, name = ''Workshop'', date = ''2024-01-15'', start = ''09:00'',
     end' = ''11:30'', rooms = [Cafe, Hall], status = Taken, guests = Fin 20,
     rate = Fin 10, day = Fin 0, fee = Fin 0, food = Fin 5, drinks = Fin 7,
     cancelReason = None, notes' = None \<rparr>"

definition booking_unparsable :: EventRow where
  "booking_unparsable = booking_A\<lparr> date := ''TBD'', start := ''10:00'', end' := ''09:00'' \<rparr>"

definition booking_first :: EventRow where
  "booking_first = booking_A\<lparr> name := ''first'' \<rparr>"

definition booking_second :: EventRow where
  "booking_second = booking_A\<lparr> name := ''second'' \<rparr>"

definition booking_fee :: EventRow where
  "booking_fee = booking_A\<lparr> fee := Fin 100 \<rparr>"

definition booking_new_year :: EventRow where
  "booking_new_year = booking_A\<lparr> date := ''2024-01-01'' \<rparr>"

text \<open>A booking of the whole project, as the button \<^verbatim>\<open>Book entire project\<close> makes it.\<close>

definition booking_all_rooms :: EventRow where
  "booking_all_rooms = booking_A\<lparr> fee := Fin 100, rooms := ROOMS \<rparr>"

text \<open>A booking whose date is written in the basic format, without hyphens.\<close>

definition booking_basic_date :: EventRow where
  "booking_basic_date = booking_A\<lparr> date := ''20240115'' \<rparr>"

section \<open>Properties\<close>

subsection \<open>Arithmetic of the number model\<close>



lemma js_add_zero_right: "js_add x (Fin 0) = x"
  by (cases x; simp)

subsection \<open>Valuation of one booking\<close>

lemma durationHrs_booking_A: "durationHrs 3600000 booking_A = Fin (5 / 2)"
  by code_simp


text \<open>
  C1. The rental charge of a booking is 0 when its status is Free. Otherwise it is the
  fixed fee when the fee is greater than 0, whatever the day rate and the hourly rate
  are; else the day rate when the day rate is greater than 0, whatever the hourly rate
  is; else the hourly rate times the duration in hours.
\<close>

theorem rentalPart_precedence:
  "(status e = Free \<longrightarrow> rentalPart tza e = Fin 0) \<and>
   (status e \<noteq> Free \<and> js_gt (fee e) (Fin 0) \<longrightarrow>
      rentalPart tza (e\<lparr>day := d, rate := r\<rparr>) = fee e) \<and>
   (status e \<noteq> Free \<and> \<not> js_gt (fee e) (Fin 0) \<and> js_gt (day e) (Fin 0) \<longrightarrow>
      rentalPart tza (e\<lparr>rate := r\<rparr>) = day e) \<and>
   (status e \<noteq> Free \<and> \<not> js_gt (fee e) (Fin 0) \<and> \<not> js_gt (day e) (Fin 0) \<longrightarrow>
      rentalPart tza e = js_mul (rate e) (durationHrs tza e))"
  by (simp add: rentalPart_def)

theorem rentalPart_precedence_witness:
  "status (booking_A\<lparr>status := Free\<rparr>) = Free \<and>
   rentalPart 3600000 (booking_A\<lparr>status := Free\<rparr>) = Fin 0 \<and>
   status booking_A \<noteq> Free \<and> js_gt (fee (booking_A\<lparr>fee := Fin 100\<rparr>)) (Fin 0) \<and>
   rentalPart 3600000 (booking_A\<lparr>fee := Fin 100, day := Fin 80, rate := Fin 10\<rparr>) = Fin 100 \<and>
   \<not> js_gt (fee booking_A) (Fin 0) \<and> js_gt (day (booking_A\<lparr>day := Fin 80\<rparr>)) (Fin 0) \<and>
   rentalPart 3600000 (booking_A\<lparr>day := Fin 80, rate := Fin 10\<rparr>) = Fin 80 \<and>
   \<not> js_gt (day booking_A) (Fin 0) \<and>
   rentalPart 3600000 booking_A = Fin 25"
  using rentalPart_precedence [where e = "booking_A\<lparr>status := Free\<rparr>" and tza = 3600000]
    rentalPart_precedence [where e = "booking_A\<lparr>fee := Fin 100\<rparr>" and tza = 3600000
      and d = "Fin 80" and r = "Fin 10"]
    rentalPart_precedence [where e = "booking_A\<lparr>day := Fin 80\<rparr>" and tza = 3600000
      and r = "Fin 10"]
    rentalPart_precedence [where e = booking_A and tza = 3600000]
    durationHrs_booking_A
  by (simp add: booking_A_def)



subsection \<open>Per-room breakdown\<close>

lemma perRoom_room_other: "r \<noteq> x \<Longrightarrow> perRoom_room e n rent lost x m r = m r"
  by (simp add: perRoom_room_def Let_def)

lemma fold_perRoom_room_other:
  "r \<notin> set rs \<Longrightarrow> fold (perRoom_room e n rent lost) rs m r = m r"
  by (induction rs arbitrary: m) (auto simp: perRoom_room_other)

lemma room_entry_fold_other:
  "r \<notin> set rs \<Longrightarrow> room_entry (fold (perRoom_room e n rent lost) rs m) r = room_entry m r"
  by (simp add: room_entry_def fold_perRoom_room_other)

lemma room_entry_perRoom_room:
  "room_entry (perRoom_room e n rent lost r m) r =
     (room_entry m r)\<lparr>
        room_events := room_events (room_entry m r) + 1,
        room_revenue := js_add (room_revenue (room_entry m r))
                          (if status e = Taken then js_div rent n else Fin 0),
        room_lost := js_add (room_lost (room_entry m r)) (js_div lost n),
        room_guests := js_add (room_guests (room_entry m r))
                         (if status e = Taken then js_or (guests e) (Fin 0) else Fin 0) \<rparr>"
  by (simp add: perRoom_room_def room_entry_def Let_def)

lemma room_entry_perRoom_room_other:
  "r \<noteq> x \<Longrightarrow> room_entry (perRoom_room e n rent lost x m) r = room_entry m r"
  by (simp add: room_entry_def perRoom_room_other)

lemma room_entry_fold_at:
  "distinct rs \<Longrightarrow> r \<in> set rs \<Longrightarrow>
   room_entry (fold (perRoom_room e n rent lost) rs m) r =
     (room_entry m r)\<lparr>
        room_events := room_events (room_entry m r) + 1,
        room_revenue := js_add (room_revenue (room_entry m r))
                          (if status e = Taken then js_div rent n else Fin 0),
        room_lost := js_add (room_lost (room_entry m r)) (js_div lost n),
        room_guests := js_add (room_guests (room_entry m r))
                         (if status e = Taken then js_or (guests e) (Fin 0) else Fin 0) \<rparr>"
proof (induction rs arbitrary: m)
  case Nil
  then show ?case by simp
next
  case (Cons x rs)
  show ?case
  proof (cases "r = x")
    case True
    with Cons.prems have "r \<notin> set rs" by simp
    then have "room_entry (fold (perRoom_room e n rent lost) (x # rs) m) r =
        room_entry (perRoom_room e n rent lost x m) r"
      by (simp add: room_entry_fold_other)
    with True show ?thesis by (simp add: room_entry_perRoom_room)
  next
    case False
    with Cons.prems have "distinct rs" and "r \<in> set rs" by auto
    from Cons.IH [OF this] False show ?thesis
      by (simp add: room_entry_perRoom_room_other)
  qed
qed

lemma perRoom_event_fold:
  "perRoom_event tza e m =
     fold (perRoom_room e (Fin (real (max 1 (length (rooms e))))) (rentalPart tza e) (lostFor tza e))
       (rooms e) m"
  by (simp add: perRoom_event_def Let_def)

lemma room_entry_perRoom_event:
  assumes "distinct (rooms e)" and "r \<in> set (rooms e)"
  shows "room_entry (perRoom_event tza e m) r =
     (room_entry m r)\<lparr>
        room_events := room_events (room_entry m r) + 1,
        room_revenue := js_add (room_revenue (room_entry m r))
           (if status e = Taken then js_div (rentalPart tza e) (Fin (real (length (rooms e)))) else Fin 0),
        room_lost := js_add (room_lost (room_entry m r))
           (js_div (lostFor tza e) (Fin (real (length (rooms e))))),
        room_guests := js_add (room_guests (room_entry m r))
           (if status e = Taken then js_or (guests e) (Fin 0) else Fin 0) \<rparr>"
proof -
  from assms(2) have "rooms e \<noteq> []" by auto
  then have "max 1 (length (rooms e)) = length (rooms e)"
    by (cases "rooms e") simp_all
  then show ?thesis
    using room_entry_fold_at [OF assms] by (simp add: perRoom_event_fold)
qed

lemma room_entry_perRoom_init: "room_entry perRoom_init r = zero_room"
  by (cases r) (simp_all add: perRoom_init_def ROOMS_def room_entry_def)

text \<open>
  C7. Let the rooms of a booking be different rooms. Processing the booking adds to the
  guest total of each of its rooms the whole guest count of the booking, not divided by
  the number of rooms, when the status is Taken, and adds nothing for any other status.
  The guest count is read as \<^verbatim>\<open>e.guests || 0\<close>: a count that is NaN adds nothing.
\<close>

theorem perRoom_guests_undivided:
  "distinct (rooms e) \<and> r \<in> set (rooms e) \<longrightarrow>
     (status e = Taken \<and> guests e \<noteq> NaN \<longrightarrow>
        room_guests (room_entry (perRoom_event tza e m) r) =
          js_add (room_guests (room_entry m r)) (guests e)) \<and>
     (status e = Taken \<and> guests e = NaN \<longrightarrow>
        room_guests (room_entry (perRoom_event tza e m) r) = room_guests (room_entry m r)) \<and>
     (status e \<noteq> Taken \<longrightarrow>
        room_guests (room_entry (perRoom_event tza e m) r) = room_guests (room_entry m r))"
proof (intro impI)
  assume "distinct (rooms e) \<and> r \<in> set (rooms e)"
  then have d: "distinct (rooms e)" and r: "r \<in> set (rooms e)" by simp_all
  have g: "guests e \<noteq> NaN \<Longrightarrow> js_or (guests e) (Fin 0) = guests e"
    by (auto simp: js_or_def js_truthy_def)
  have z: "js_or NaN (Fin 0) = Fin 0"
    by (simp add: js_or_def js_truthy_def)
  show "(status e = Taken \<and> guests e \<noteq> NaN \<longrightarrow>
        room_guests (room_entry (perRoom_event tza e m) r) =
          js_add (room_guests (room_entry m r)) (guests e)) \<and>
     (status e = Taken \<and> guests e = NaN \<longrightarrow>
        room_guests (room_entry (perRoom_event tza e m) r) = room_guests (room_entry m r)) \<and>
     (status e \<noteq> Taken \<longrightarrow>
        room_guests (room_entry (perRoom_event tza e m) r) = room_guests (room_entry m r))"
    by (simp add: room_entry_perRoom_event [OF d r] g z js_add_zero_right)
qed

theorem perRoom_guests_undivided_witness:
  "distinct (rooms booking_A) \<and> Hall \<in> set (rooms booking_A) \<and>
   length (rooms booking_A) = 2 \<and> status booking_A = Taken \<and> guests booking_A = Fin 20 \<and>
   room_guests (room_entry (perRoom_event 0 booking_A perRoom_init) Hall) = Fin 20 \<and>
   status (booking_A\<lparr>status := Booked\<rparr>) \<noteq> Taken \<and>
   room_guests (room_entry (perRoom_event 0 (booking_A\<lparr>status := Booked\<rparr>) perRoom_init) Hall)
     = Fin 0 \<and>
   guests (booking_A\<lparr>guests := NaN\<rparr>) = NaN \<and>
   room_guests (room_entry (perRoom_event 0 (booking_A\<lparr>guests := NaN\<rparr>) perRoom_init) Hall)
     = Fin 0"
  using perRoom_guests_undivided [where e = booking_A and r = Hall and tza = 0
      and m = perRoom_init]
    perRoom_guests_undivided [where e = "booking_A\<lparr>status := Booked\<rparr>" and r = Hall
      and tza = 0 and m = perRoom_init]
    perRoom_guests_undivided [where e = "booking_A\<lparr>guests := NaN\<rparr>" and r = Hall
      and tza = 0 and m = perRoom_init]
  by (simp add: booking_A_def room_entry_perRoom_init zero_room_def)

subsection \<open>Rounding to binary64\<close>

text \<open>
  The error of one rounding is at most half the spacing of the numbers at the exponent of
  the exact result, which is the fraction \<open>unit_roundoff\<close> of the result when the result
  is not subnormal (\<open>fl_err\<close>). A sum of up to eight equal numbers, added from the left,
  stays within the corresponding power of \<open>1 + unit_roundoff\<close> of the exact sum
  (\<open>b64_sum_replicate\<close>), and so do the N shares of a number (\<open>share_sum_tolerance\<close>).
\<close>

lemma round_even_err: "\<bar>real_of_int (round_even y) - y\<bar> \<le> 1 / 2"
proof -
  have "real_of_int \<lfloor>y\<rfloor> \<le> y" "y < real_of_int \<lfloor>y\<rfloor> + 1" by linarith+
  then show ?thesis
    by (auto simp: round_even_def Let_def)
qed

lemma powi_nat: "(2::real) powi (int n) = 2 ^ n"
  by (simp add: power_int_def)

lemma powi_neg_nat: "(2::real) powi (- int n) = 1 / 2 ^ n"
  by (simp add: power_int_minus powi_nat divide_inverse)

lemma pow2_le_real: "(2::nat) ^ a \<le> n \<Longrightarrow> (2::real) ^ a \<le> real n"
proof -
  assume "(2::nat) ^ a \<le> n"
  then have "real (2 ^ a) \<le> real n" by (simp only: of_nat_le_iff)
  then show ?thesis by simp
qed

lemma less_pow2_real: "n < (2::nat) ^ a \<Longrightarrow> real n + 1 \<le> 2 ^ a"
proof -
  assume "n < (2::nat) ^ a"
  then have "Suc n \<le> 2 ^ a" by simp
  then have "real (Suc n) \<le> real (2 ^ a)" by (simp only: of_nat_le_iff)
  then show ?thesis by simp
qed

lemma bexp_bounds:
  assumes "0 < x"
  shows "2 powi (bexp x) \<le> x \<and> x < 2 powi (bexp x + 1)"
proof (cases "1 \<le> x")
  case True
  define n where "n = nat \<lfloor>x\<rfloor>"
  define f where "f = floorlog 2 n"
  from True have n: "0 < n" "real n \<le> x" "x < real n + 1"
    by (simp_all add: n_def)
  from floorlog_bounds [of n 2] n(1) have b: "2 ^ (f - 1) \<le> n" "n < 2 ^ f"
    by (simp_all add: f_def)
  from n(1) have f: "0 < f" by (simp add: f_def floorlog_def)
  then have e: "bexp x = int (f - 1)" "bexp x + 1 = int f"
    using True by (simp_all add: bexp_def n_def f_def)
  from b(1) have "(2::real) ^ (f - 1) \<le> real n"
    by (rule pow2_le_real)
  with n(2) have lo: "(2::real) ^ (f - 1) \<le> x" by linarith
  from b(2) have "real n + 1 \<le> 2 ^ f"
    by (rule less_pow2_real)
  with n(3) have hi: "x < 2 ^ f" by linarith
  have "(2::real) powi (bexp x) = 2 ^ (f - 1)"
    by (subst e(1)) (rule powi_nat)
  moreover have "(2::real) powi (bexp x + 1) = 2 ^ f"
    by (subst e(2)) (rule powi_nat)
  ultimately have "(2::real) powi (bexp x) = 2 ^ (f - 1) \<and> (2::real) powi (bexp x + 1) = 2 ^ f"
    by simp
  with lo hi show ?thesis by simp
next
  case False
  define y where "y = 1 / x"
  define c where "c = \<lceil>y\<rceil>"
  define n where "n = nat (c - 1)"
  define f where "f = floorlog 2 n"
  from False assms have y: "1 < y" by (simp add: y_def)
  then have c: "y \<le> real_of_int c" "real_of_int c - 1 < y" "2 \<le> c"
    by (simp_all add: c_def) linarith+
  then have n: "0 < n" "real n = real_of_int c - 1" by (simp_all add: n_def)
  from floorlog_bounds [of n 2] n(1) have b: "2 ^ (f - 1) \<le> n" "n < 2 ^ f"
    by (simp_all add: f_def)
  from n(1) have f: "0 < f" by (simp add: f_def floorlog_def)
  have e: "bexp x = - int f" "bexp x + 1 = - int (f - 1)"
    using False f by (simp_all add: bexp_def n_def f_def c_def y_def)
  from b(1) have "(2::real) ^ (f - 1) \<le> real n"
    by (rule pow2_le_real)
  with n(2) c(2) have lo: "(2::real) ^ (f - 1) < y" by linarith
  from b(2) have "real n + 1 \<le> 2 ^ f"
    by (rule less_pow2_real)
  with n(2) c(1) have hi: "y \<le> 2 ^ f" by linarith
  from hi assms have "1 / 2 ^ f \<le> x"
    by (simp add: y_def field_simps)
  moreover from lo assms have "x < 1 / 2 ^ (f - 1)"
    by (simp add: y_def field_simps)
  moreover have "(2::real) powi (bexp x) = 1 / 2 ^ f"
    by (subst e(1)) (rule powi_neg_nat)
  moreover have "(2::real) powi (bexp x + 1) = 1 / 2 ^ (f - 1)"
    by (subst e(2)) (rule powi_neg_nat)
  ultimately show ?thesis by simp
qed

lemma powi_less_imp: "(2::real) powi a < 2 powi b \<Longrightarrow> a < b"
  using power_int_increasing [of b a "2::real"] by (cases "a < b") auto

lemma bexp_unique:
  assumes "2 powi k \<le> x" and "x < 2 powi (k + 1)"
  shows "bexp x = k"
proof -
  have "0 < (2::real) powi k" by simp
  with assms(1) have x: "0 < x" by linarith
  from bexp_bounds [OF x] have b: "2 powi (bexp x) \<le> x" "x < 2 powi (bexp x + 1)" by simp_all
  from assms(1) b(2) have "(2::real) powi k < 2 powi (bexp x + 1)" by linarith
  then have "k < bexp x + 1" by (rule powi_less_imp)
  moreover from b(1) assms(2) have "(2::real) powi (bexp x) < 2 powi (k + 1)" by linarith
  then have "bexp x < k + 1" by (rule powi_less_imp)
  ultimately show ?thesis by simp
qed

lemma fl_eval:
  assumes "2 powi k \<le> \<bar>x\<bar>" and "\<bar>x\<bar> < 2 powi (k + 1)" and "- 1022 \<le> k"
  shows "fl x = real_of_int (round_even (x / 2 powi (k - 52))) * 2 powi (k - 52)"
proof -
  have "0 < (2::real) powi k" by simp
  with assms(1) have "0 < \<bar>x\<bar>" by linarith
  then have "x \<noteq> 0" by simp
  moreover have "bexp \<bar>x\<bar> = k" by (rule bexp_unique [OF assms(1,2)])
  moreover from assms(3) have "max (k - 52) (- 1074) = k - 52" by simp
  ultimately show ?thesis by (simp add: fl_def Let_def)
qed

lemma powi_shift: "(2::real) powi (k - 52) = 2 powi k / 2 ^ 52"
proof -
  have "(2::real) powi (k - 52) = 2 powi k / 2 powi 52"
    by (rule power_int_diff) simp
  then show ?thesis by (simp only: power_int_numeral)
qed

lemma fl_err:
  assumes "2 powi (- 1022) \<le> \<bar>x\<bar>"
  shows "\<bar>fl x - x\<bar> \<le> \<bar>x\<bar> / 2 ^ 53"
proof -
  define k where "k = bexp \<bar>x\<bar>"
  define p where "p = (2::real) powi (k - 52)"
  have "0 < (2::real) powi (- 1022)" by (rule zero_less_power_int) simp
  with assms have x: "0 < \<bar>x\<bar>" by linarith
  from bexp_bounds [OF x] have b: "2 powi k \<le> \<bar>x\<bar>" "\<bar>x\<bar> < 2 powi (k + 1)"
    by (simp_all add: k_def)
  from assms b(2) have "(2::real) powi (- 1022) < 2 powi (k + 1)" by linarith
  then have "- 1022 < k + 1" by (rule powi_less_imp)
  then have k: "- 1022 \<le> k" by simp
  have p: "0 < p" by (simp add: p_def)
  have f: "fl x = real_of_int (round_even (x / p)) * p"
    unfolding p_def by (rule fl_eval [OF b k])
  have "\<bar>real_of_int (round_even (x / p)) - x / p\<bar> \<le> 1 / 2" by (rule round_even_err)
  then have "\<bar>real_of_int (round_even (x / p)) - x / p\<bar> * p \<le> 1 / 2 * p"
    using p by (intro mult_right_mono) simp_all
  moreover have "\<bar>real_of_int (round_even (x / p)) - x / p\<bar> * p = \<bar>fl x - x\<bar>"
  proof -
    have "\<bar>real_of_int (round_even (x / p)) - x / p\<bar> * p
        = \<bar>(real_of_int (round_even (x / p)) - x / p) * p\<bar>"
      using p by (simp add: abs_mult)
    also have "(real_of_int (round_even (x / p)) - x / p) * p = fl x - x"
      using p by (simp add: f algebra_simps)
    finally show ?thesis .
  qed
  ultimately have "\<bar>fl x - x\<bar> \<le> p / 2" by simp
  also have "p / 2 = 2 powi k / 2 ^ 53"
  proof -
    have "(2::real) ^ 53 = 2 ^ 52 * 2" by simp
    then show ?thesis by (simp only: p_def powi_shift divide_divide_eq_left)
  qed
  also have "\<dots> \<le> \<bar>x\<bar> / 2 ^ 53" using b(1) by (intro divide_right_mono) simp_all
  finally show ?thesis .
qed

lemma fl_zero: "fl 0 = 0"
  by (simp add: fl_def)

lemma fl_nonneg_bounds:
  assumes "x = 0 \<or> 2 powi (- 1022) \<le> x"
  shows "(1 - 1 / 2 ^ 53) * x \<le> fl x \<and> fl x \<le> (1 + 1 / 2 ^ 53) * x"
proof (cases "x = 0")
  case True
  then show ?thesis by (simp add: fl_zero)
next
  case False
  with assms have a: "2 powi (- 1022) \<le> x" by simp
  have "0 < (2::real) powi (- 1022)" by (rule zero_less_power_int) simp
  with a have x: "0 < x" by linarith
  with a have ax: "2 powi (- 1022) \<le> \<bar>x\<bar>" by simp
  define d where "d = x / 2 ^ 53"
  from fl_err [OF ax] x have "\<bar>fl x - x\<bar> \<le> d" by (simp only: d_def abs_of_pos)
  then have "x - d \<le> fl x \<and> fl x \<le> x + d"
    by (simp only: abs_le_iff) linarith
  moreover have "(1 - 1 / 2 ^ 53) * x = x - d" "(1 + 1 / 2 ^ 53) * x = x + d"
    by (simp_all only: d_def left_diff_distrib distrib_right mult_1 times_divide_eq_left)
  ultimately show ?thesis by (simp only:)
qed

lemma b64_Fin: "fl x = y \<Longrightarrow> \<bar>y\<bar> < 2 ^ 1024 \<Longrightarrow> b64 x = Fin y"
  by (auto simp: b64_def Let_def)

lemma b64_eval:
  assumes "2 powi k \<le> \<bar>x\<bar>" and "\<bar>x\<bar> < 2 powi (k + 1)" and "- 1022 \<le> k"
    and "round_even (x / 2 powi (k - 52)) = m"
    and "real_of_int m * 2 powi (k - 52) = y"
    and "\<bar>y\<bar> < 2 ^ 1024"
  shows "b64 x = Fin y"
proof -
  have "fl x = y"
    using fl_eval [OF assms(1,2,3)] assms(4,5) by simp
  then show ?thesis using assms(6) by (rule b64_Fin)
qed

lemma b64_zero: "b64 0 = Fin 0"
  by (rule b64_Fin) (simp_all add: fl_zero)

lemma share_steps:
  "b64_div (Fin 100) (Fin 6) = Fin (4691249611844267 / 2 ^ 48)"
  "b64_add (Fin 0) (Fin (4691249611844267 / 2 ^ 48)) = Fin (4691249611844267 / 2 ^ 48)"
  "b64_add (Fin (4691249611844267 / 2 ^ 48)) (Fin (4691249611844267 / 2 ^ 48)) = Fin (4691249611844267 / 2 ^ 47)"
  "b64_add (Fin (4691249611844267 / 2 ^ 47)) (Fin (4691249611844267 / 2 ^ 48)) = Fin 50"
  "b64_add (Fin 50) (Fin (4691249611844267 / 2 ^ 48)) = Fin (4691249611844267 / 2 ^ 46)"
  "b64_add (Fin (4691249611844267 / 2 ^ 46)) (Fin (4691249611844267 / 2 ^ 48)) = Fin (5864062014805334 / 2 ^ 46)"
  "b64_add (Fin (5864062014805334 / 2 ^ 46)) (Fin (4691249611844267 / 2 ^ 48)) = Fin (7036874417766401 / 2 ^ 46)"
proof -
  have "b64 (50 / 3) = Fin (4691249611844267 / 2 ^ 48)"
    by (rule b64_eval [where k = 4 and m = 4691249611844267]) (simp_all add: round_even_def Let_def)
  then show "b64_div (Fin 100) (Fin 6) = Fin (4691249611844267 / 2 ^ 48)"
    by simp
  show "b64_add (Fin 0) (Fin (4691249611844267 / 2 ^ 48)) = Fin (4691249611844267 / 2 ^ 48)"
    unfolding b64_add.simps
    by (rule b64_eval [where k = 4 and m = 4691249611844267]) (simp_all add: round_even_def Let_def)
  show "b64_add (Fin (4691249611844267 / 2 ^ 48)) (Fin (4691249611844267 / 2 ^ 48)) = Fin (4691249611844267 / 2 ^ 47)"
    unfolding b64_add.simps
    by (rule b64_eval [where k = 5 and m = 4691249611844267]) (simp_all add: round_even_def Let_def)
  show "b64_add (Fin (4691249611844267 / 2 ^ 47)) (Fin (4691249611844267 / 2 ^ 48)) = Fin 50"
    unfolding b64_add.simps
    by (rule b64_eval [where k = 5 and m = 7036874417766400]) (simp_all add: round_even_def Let_def)
  show "b64_add (Fin 50) (Fin (4691249611844267 / 2 ^ 48)) = Fin (4691249611844267 / 2 ^ 46)"
    unfolding b64_add.simps
    by (rule b64_eval [where k = 6 and m = 4691249611844267]) (simp_all add: round_even_def Let_def)
  show "b64_add (Fin (4691249611844267 / 2 ^ 46)) (Fin (4691249611844267 / 2 ^ 48)) = Fin (5864062014805334 / 2 ^ 46)"
    unfolding b64_add.simps
    by (rule b64_eval [where k = 6 and m = 5864062014805334]) (simp_all add: round_even_def Let_def)
  show "b64_add (Fin (5864062014805334 / 2 ^ 46)) (Fin (4691249611844267 / 2 ^ 48)) = Fin (7036874417766401 / 2 ^ 46)"
    unfolding b64_add.simps
    by (rule b64_eval [where k = 6 and m = 7036874417766401]) (simp_all add: round_even_def Let_def)
qed

lemma roundoff_bounds: "0 < unit_roundoff" "unit_roundoff \<le> 1 / 2"
  by (simp_all add: unit_roundoff_def)

lemma fl_nonneg_bounds':
  assumes "x = 0 \<or> 2 powi (- 1022) \<le> x"
  shows "(1 - unit_roundoff) * x \<le> fl x \<and> fl x \<le> (1 + unit_roundoff) * x"
  unfolding unit_roundoff_def by (rule fl_nonneg_bounds [OF assms])

lemma nonneg_of_normal:
  assumes "(x::real) = 0 \<or> 2 powi (- 1022) \<le> x"
  shows "0 \<le> x"
proof -
  have "0 < (2::real) powi (- 1022)" by (rule zero_less_power_int) simp
  with assms show ?thesis by linarith
qed

lemma b64_nonneg_bounds:
  assumes n: "x = 0 \<or> 2 powi (- 1022) \<le> x" and u: "x \<le> 2 ^ 1020"
  shows "\<exists>y. b64 x = Fin y \<and> (1 - unit_roundoff) * x \<le> y \<and> y \<le> (1 + unit_roundoff) * x"
proof -
  from fl_nonneg_bounds' [OF n]
  have b: "(1 - unit_roundoff) * x \<le> fl x" "fl x \<le> (1 + unit_roundoff) * x" by simp_all
  have x: "0 \<le> x" by (rule nonneg_of_normal [OF n])
  have "0 \<le> (1 - unit_roundoff) * x"
    using x roundoff_bounds by (intro mult_nonneg_nonneg) simp_all
  with b(1) have lo: "0 \<le> fl x" by linarith
  have "(1 + unit_roundoff) * x \<le> 2 * x"
    using x roundoff_bounds by (intro mult_right_mono) simp_all
  with b(2) u have "fl x \<le> 2 * 2 ^ 1020" by linarith
  also have "\<dots> < (2::real) ^ 1024" by simp
  finally have "\<bar>fl x\<bar> < 2 ^ 1024" using lo by simp
  then have "b64 x = Fin (fl x)" by (intro b64_Fin) simp_all
  with b show ?thesis by simp
qed

lemma foldl_replicate_Suc:
  "foldl f a (replicate (Suc k) x) = f (foldl f a (replicate k x)) x"
  by (induction k arbitrary: a) simp_all

lemma b64_sum_replicate:
  assumes c: "c = 0 \<or> 2 powi (- 1022) \<le> c" and cu: "c \<le> 2 ^ 1005"
  shows "k \<le> 8 \<Longrightarrow>
     \<exists>s. foldl b64_add (Fin 0) (replicate k (Fin c)) = Fin s \<and>
         (1 - unit_roundoff) ^ k * (real k * c) \<le> s \<and>
         s \<le> (1 + unit_roundoff) ^ k * (real k * c)"
proof (induction k)
  case 0
  then show ?case by simp
next
  case (Suc k)
  define lo where "lo = 1 - unit_roundoff"
  define hi where "hi = 1 + unit_roundoff"
  define A where "A = hi ^ k"
  define B where "B = lo ^ k"
  define w where "w = real k * c"
  from Suc.prems have k: "k \<le> 8" by simp
  from Suc.IH [OF k] obtain s where
    f: "foldl b64_add (Fin 0) (replicate k (Fin c)) = Fin s"
    and sl: "B * w \<le> s" and su: "s \<le> A * w"
    by (auto simp: lo_def hi_def A_def B_def w_def)
  have c0: "0 \<le> c" by (rule nonneg_of_normal [OF c])
  then have w0: "0 \<le> w" by (simp add: w_def)
  have lo: "0 \<le> lo" "lo \<le> 1" and hi: "1 \<le> hi" "hi \<le> 2"
    using roundoff_bounds by (simp_all add: lo_def hi_def)
  have B: "0 \<le> B" "B \<le> 1"
    using lo by (simp_all add: B_def power_le_one)
  have A1: "1 \<le> A" using hi by (simp add: A_def one_le_power)
  have "A \<le> 2 ^ k" unfolding A_def using hi by (intro power_mono) simp_all
  also have "(2::real) ^ k \<le> 2 ^ 8" using k by (intro power_increasing) simp_all
  finally have A2: "A \<le> 256" by simp
  have s0: "0 \<le> s"
  proof -
    have "0 \<le> B * w" using B w0 by (intro mult_nonneg_nonneg)
    with sl show ?thesis by linarith
  qed
  have wk: "w \<le> 8 * c"
  proof -
    have "real k \<le> 8" using k by simp
    then have "real k * c \<le> 8 * c" using c0 by (intro mult_right_mono)
    then show ?thesis by (simp add: w_def)
  qed
  have "A * w \<le> 256 * (8 * c)"
    using A2 wk w0 A1 by (intro mult_mono) simp_all
  with su have s2: "s \<le> 2048 * c" by simp
  have n: "s + c = 0 \<or> 2 powi (- 1022) \<le> s + c"
  proof (cases "c = 0")
    case True
    with s2 s0 show ?thesis by simp
  next
    case False
    with c have "2 powi (- 1022) \<le> c" by simp
    with s0 show ?thesis by simp
  qed
  have "s + c \<le> 2049 * c" using s2 by simp
  also have "\<dots> \<le> 2049 * 2 ^ 1005" using cu by simp
  also have "\<dots> \<le> (2::real) ^ 1020" by simp
  finally have u: "s + c \<le> 2 ^ 1020" .
  from b64_nonneg_bounds [OF n u] obtain y where
    y: "b64 (s + c) = Fin y" and yl: "lo * (s + c) \<le> y" and yu: "y \<le> hi * (s + c)"
    by (auto simp: lo_def hi_def)
  have g: "foldl b64_add (Fin 0) (replicate (Suc k) (Fin c)) = Fin y"
    by (simp only: foldl_replicate_Suc f b64_add.simps y)
  have up: "y \<le> hi ^ Suc k * (real (Suc k) * c)"
  proof -
    have "c \<le> A * c" using A1 c0 by (simp add: mult_le_cancel_right1)
    with su have "s + c \<le> A * w + A * c" by linarith
    then have "hi * (s + c) \<le> hi * (A * w + A * c)"
      using hi by (intro mult_left_mono) simp_all
    also have "\<dots> = hi ^ Suc k * (real (Suc k) * c)"
      by (simp add: A_def w_def algebra_simps)
    finally show ?thesis using yu by linarith
  qed
  have dn: "lo ^ Suc k * (real (Suc k) * c) \<le> y"
  proof -
    have "B * c \<le> c" using B c0 by (simp add: mult_le_cancel_right2)
    with sl have "B * w + B * c \<le> s + c" by linarith
    then have "lo * (B * w + B * c) \<le> lo * (s + c)"
      using lo by (intro mult_left_mono) simp_all
    moreover have "lo * (B * w + B * c) = lo ^ Suc k * (real (Suc k) * c)"
      by (simp add: B_def w_def algebra_simps)
    ultimately show ?thesis using yl by linarith
  qed
  from g up dn show ?case by (auto simp: lo_def hi_def)
qed

lemma eighth_power_bound:
  assumes "0 \<le> (u::real)" and "u \<le> 1 / 49"
  shows "(1 + u) ^ 8 \<le> 1 + 16 * u"
proof -
  have uu: "u * u \<le> u / 49"
    using assms mult_left_mono [of u "1 / 49" u] by simp
  have a: "(1 + u) ^ 2 \<le> 1 + 3 * u"
    using uu assms by (simp add: power2_eq_square algebra_simps)
  have b: "(1 + 3 * u) ^ 2 \<le> 1 + 7 * u"
    using uu assms by (simp add: power2_eq_square algebra_simps)
  have c: "(1 + 7 * u) ^ 2 \<le> 1 + 15 * u"
    using uu assms by (simp add: power2_eq_square algebra_simps)
  have "(1 + u) ^ 8 = (((1 + u) ^ 2) ^ 2) ^ 2"
    by (simp flip: power_mult)
  also have "\<dots> \<le> ((1 + 3 * u) ^ 2) ^ 2"
    using a assms by (intro power_mono) simp_all
  also have "\<dots> \<le> (1 + 7 * u) ^ 2"
    using b assms by (intro power_mono) simp_all
  also have "\<dots> \<le> 1 + 15 * u" by (rule c)
  finally show ?thesis using assms by simp
qed

lemma roundoff_power_bounds:
  "(1 + unit_roundoff) ^ 8 \<le> 1 + 1 / 2 ^ 49" "1 - 1 / 2 ^ 49 \<le> (1 - unit_roundoff) ^ 8"
proof -
  have "(1 + unit_roundoff) ^ 8 \<le> 1 + 16 * unit_roundoff"
    by (rule eighth_power_bound) (simp_all add: unit_roundoff_def)
  then show "(1 + unit_roundoff) ^ 8 \<le> 1 + 1 / 2 ^ 49"
    by (simp add: unit_roundoff_def)
  have "1 + real 8 * (- unit_roundoff) \<le> (1 + (- unit_roundoff)) ^ 8"
    by (rule Bernoulli_inequality) (simp add: unit_roundoff_def)
  then show "1 - 1 / 2 ^ 49 \<le> (1 - unit_roundoff) ^ 8"
    by (simp add: unit_roundoff_def)
qed

lemma normal_threshold: "(2::real) powi (- 1022) \<le> 1 / 2 ^ 1000 / 24"
  by simp

lemma share_sum_tolerance:
  assumes N: "1 \<le> N" "N \<le> 6" and xn: "x = 0 \<or> 1 / 2 ^ 1000 \<le> x" and xu: "x \<le> 2 ^ 1000"
  shows "\<exists>s. b64_sum (replicate N (b64_add (Fin 0) (b64_div (Fin x) (Fin (real N))))) = Fin s
     \<and> \<bar>s - x\<bar> \<le> x / 2 ^ 49"
proof -
  define lo where "lo = 1 - unit_roundoff"
  define hi where "hi = 1 + unit_roundoff"
  define L where "L = (2::real) powi (- 1022)"
  define t where "t = x / real N"
  define m where "m = (1::real) / 2 ^ 1000"
  define M where "M = (2::real) ^ 1000"
  have xm: "x = 0 \<or> m \<le> x" using xn by (simp only: m_def)
  have xM: "x \<le> M" using xu by (simp only: M_def)
  have lo: "1 / 2 \<le> lo" "lo \<le> 1" and hi: "1 \<le> hi" "hi \<le> 2"
    using roundoff_bounds by (simp_all add: lo_def hi_def)
  have L: "L \<le> m / 24" unfolding L_def m_def by (rule normal_threshold)
  have x0: "0 \<le> x" using xn by auto
  have rN: "1 \<le> real N" "real N \<le> 6" using N by simp_all
  have xt: "real N * t = x" using rN by (simp add: t_def)
  have t0: "0 \<le> t" using x0 rN by (simp add: t_def)
  have tx: "t \<le> x" using x0 rN by (simp add: t_def field_simps mult_le_cancel_left1)
  have tl: "x / 6 \<le> t"
    unfolding t_def using x0 rN by (intro divide_left_mono) simp_all
  \<comment> \<open>the quotient\<close>
  have tn: "t = 0 \<or> L \<le> t / 4"
  proof (cases "x = 0")
    case True
    then show ?thesis by (simp add: t_def)
  next
    case False
    with xm have "m \<le> x" by simp
    with tl have "m / 6 \<le> t" by linarith
    then have "m / 24 \<le> t / 4" by linarith
    with L show ?thesis by linarith
  qed
  then have "t = 0 \<or> L \<le> t" using t0 by linarith
  then have tn': "t = 0 \<or> 2 powi (- 1022) \<le> t" by (simp only: L_def)
  have "t \<le> M" using tx xM by linarith
  also have "M \<le> 2 ^ 1020" by (simp add: M_def)
  finally have tu: "t \<le> 2 ^ 1020" .
  from b64_nonneg_bounds [OF tn' tu] obtain q where
    q: "b64 t = Fin q" and ql: "lo * t \<le> q" and qu: "q \<le> hi * t"
    by (auto simp: lo_def hi_def)
  have dq: "b64_div (Fin x) (Fin (real N)) = Fin q"
    using rN q by (simp add: t_def)
  have lt: "t / 2 \<le> lo * t" using lo t0 mult_right_mono [of "1 / 2" lo t] by simp
  have ht: "hi * t \<le> 2 * t" using hi t0 by (intro mult_right_mono) simp_all
  have q0: "0 \<le> q" using lt ql t0 by linarith
  have qn: "q = 0 \<or> 2 powi (- 1022) \<le> q"
  proof (cases "t = 0")
    case True
    with ql qu show ?thesis by simp
  next
    case False
    with tn have "L \<le> t / 4" by simp
    with lt ql t0 have "L \<le> q" by linarith
    then show ?thesis unfolding L_def by (rule disjI2)
  qed
  have "q \<le> 2 * M" using qu ht tx xM by linarith
  also have "\<dots> \<le> (2::real) ^ 1020" by (simp add: M_def)
  finally have qu2: "0 + q \<le> 2 ^ 1020" by simp
  \<comment> \<open>added to the total of the room, which is 0\<close>
  from qn have qn': "0 + q = 0 \<or> 2 powi (- 1022) \<le> 0 + q" by simp
  from b64_nonneg_bounds [OF qn' qu2] obtain c where
    c: "b64 (0 + q) = Fin c" and cl: "lo * q \<le> c" and cu: "c \<le> hi * q"
    by (auto simp: lo_def hi_def)
  have ac: "b64_add (Fin 0) (b64_div (Fin x) (Fin (real N))) = Fin c"
    by (simp only: dq b64_add.simps c)
  have lq: "q / 2 \<le> lo * q" using lo q0 mult_right_mono [of "1 / 2" lo q] by simp
  have hq: "hi * q \<le> 2 * q" using hi q0 by (intro mult_right_mono) simp_all
  have c0: "0 \<le> c" using lq cl q0 by linarith
  have cn: "c = 0 \<or> 2 powi (- 1022) \<le> c"
  proof (cases "t = 0")
    case True
    with ql qu have "q = 0" by simp
    with cl cu show ?thesis by simp
  next
    case False
    with tn have "L \<le> t / 4" by simp
    with lt ql lq cl have "L \<le> c" by linarith
    then show ?thesis unfolding L_def by (rule disjI2)
  qed
  have "c \<le> 4 * M" using cu hq qu ht tx xM by linarith
  also have "\<dots> \<le> (2::real) ^ 1005" by (simp add: M_def)
  finally have cu2: "c \<le> 2 ^ 1005" .
  \<comment> \<open>the sum of the N shares\<close>
  from N have "N \<le> 8" by simp
  from b64_sum_replicate [OF cn cu2 this] obtain s where
    s: "foldl b64_add (Fin 0) (replicate N (Fin c)) = Fin s"
    and sl: "lo ^ N * (real N * c) \<le> s" and su: "s \<le> hi ^ N * (real N * c)"
    by (auto simp: lo_def hi_def)
  have lo0: "0 \<le> lo" using lo by simp
  have hi0: "0 \<le> hi" using hi by simp
  have c_up: "real N * c \<le> hi ^ 2 * x"
  proof -
    have "c \<le> hi * (hi * t)" using cu qu hi0 mult_left_mono [of q "hi * t" hi] by linarith
    then have "real N * c \<le> real N * (hi * (hi * t))" using rN by (intro mult_left_mono) simp_all
    also have "\<dots> = hi ^ 2 * (real N * t)" by (simp add: power2_eq_square algebra_simps)
    finally show ?thesis by (simp only: xt)
  qed
  have c_dn: "lo ^ 2 * x \<le> real N * c"
  proof -
    have "lo * (lo * t) \<le> c" using cl ql lo0 mult_left_mono [of "lo * t" q lo] by linarith
    then have "real N * (lo * (lo * t)) \<le> real N * c" using rN by (intro mult_left_mono) simp_all
    moreover have "real N * (lo * (lo * t)) = lo ^ 2 * (real N * t)"
      by (simp add: power2_eq_square algebra_simps)
    ultimately show ?thesis by (simp only: xt)
  qed
  have s_up: "s \<le> hi ^ 8 * x"
  proof -
    have "hi ^ N * (real N * c) \<le> hi ^ N * (hi ^ 2 * x)"
      using c_up hi0 by (intro mult_left_mono) simp_all
    also have "\<dots> = hi ^ (N + 2) * x" by (simp only: power_add mult.assoc)
    also have "\<dots> \<le> hi ^ 8 * x"
    proof -
      have "hi ^ (N + 2) \<le> hi ^ 8" using hi N by (intro power_increasing) simp_all
      then show ?thesis using x0 by (intro mult_right_mono)
    qed
    finally show ?thesis using su by linarith
  qed
  have s_dn: "lo ^ 8 * x \<le> s"
  proof -
    have "lo ^ 8 \<le> lo ^ (N + 2)" using lo lo0 N by (intro power_decreasing) simp_all
    then have "lo ^ 8 * x \<le> lo ^ (N + 2) * x" using x0 by (intro mult_right_mono)
    also have "\<dots> = lo ^ N * (lo ^ 2 * x)" by (simp only: power_add mult.assoc)
    also have "\<dots> \<le> lo ^ N * (real N * c)"
      using c_dn lo0 by (intro mult_left_mono) simp_all
    finally show ?thesis using sl by linarith
  qed
  define d where "d = x / 2 ^ 49"
  have "hi ^ 8 * x \<le> (1 + 1 / 2 ^ 49) * x"
    unfolding hi_def using roundoff_power_bounds(1) x0 by (intro mult_right_mono)
  also have "\<dots> = x + d"
    by (simp only: d_def distrib_right mult_1 times_divide_eq_left)
  finally have e1: "s \<le> x + d" using s_up by linarith
  have "(1 - 1 / 2 ^ 49) * x \<le> lo ^ 8 * x"
    unfolding lo_def using roundoff_power_bounds(2) x0 by (intro mult_right_mono)
  moreover have "(1 - 1 / 2 ^ 49) * x = x - d"
    by (simp only: d_def left_diff_distrib mult_1 times_divide_eq_left)
  ultimately have e2: "x - d \<le> s" using s_dn by linarith
  from e1 e2 have "\<bar>s - x\<bar> \<le> d" by (simp only: abs_le_iff) linarith
  moreover have "b64_sum (replicate N (b64_add (Fin 0) (b64_div (Fin x) (Fin (real N))))) = Fin s"
    by (simp only: b64_sum_def ac s)
  ultimately show ?thesis by (auto simp: d_def)
qed

subsection \<open>Per-room shares in binary64\<close>

text \<open>
  The rental charge and the lost revenue of a booking enter the loop over its rooms as
  the two numbers \<open>rent\<close> and \<open>lost\<close>. The lemmas on the loop are stated for every value
  of them: they do not depend on how the valuation of the booking was computed.
\<close>

lemma perRoom_room_b64_other: "r \<noteq> x \<Longrightarrow> perRoom_room_b64 e n rent lost x m r = m r"
  by (simp add: perRoom_room_b64_def Let_def)

lemma fold_perRoom_room_b64_other:
  "r \<notin> set rs \<Longrightarrow> fold (perRoom_room_b64 e n rent lost) rs m r = m r"
  by (induction rs arbitrary: m) (auto simp: perRoom_room_b64_other)

lemma room_entry_fold_b64_other:
  "r \<notin> set rs \<Longrightarrow> room_entry (fold (perRoom_room_b64 e n rent lost) rs m) r = room_entry m r"
  by (simp add: room_entry_def fold_perRoom_room_b64_other)

lemma room_entry_perRoom_room_b64:
  "room_entry (perRoom_room_b64 e n rent lost r m) r =
     (room_entry m r)\<lparr>
        room_events := room_events (room_entry m r) + 1,
        room_revenue := b64_add (room_revenue (room_entry m r))
                          (if status e = Taken then b64_div rent n else Fin 0),
        room_lost := b64_add (room_lost (room_entry m r)) (b64_div lost n),
        room_guests := b64_add (room_guests (room_entry m r))
                         (if status e = Taken then js_or (guests e) (Fin 0) else Fin 0) \<rparr>"
  by (simp add: perRoom_room_b64_def room_entry_def Let_def)

lemma room_entry_perRoom_room_b64_other:
  "r \<noteq> x \<Longrightarrow> room_entry (perRoom_room_b64 e n rent lost x m) r = room_entry m r"
  by (simp add: room_entry_def perRoom_room_b64_other)

lemma room_entry_fold_b64_at:
  "distinct rs \<Longrightarrow> r \<in> set rs \<Longrightarrow>
   room_entry (fold (perRoom_room_b64 e n rent lost) rs m) r =
     (room_entry m r)\<lparr>
        room_events := room_events (room_entry m r) + 1,
        room_revenue := b64_add (room_revenue (room_entry m r))
                          (if status e = Taken then b64_div rent n else Fin 0),
        room_lost := b64_add (room_lost (room_entry m r)) (b64_div lost n),
        room_guests := b64_add (room_guests (room_entry m r))
                         (if status e = Taken then js_or (guests e) (Fin 0) else Fin 0) \<rparr>"
proof (induction rs arbitrary: m)
  case Nil
  then show ?case by simp
next
  case (Cons x rs)
  show ?case
  proof (cases "r = x")
    case True
    with Cons.prems have "r \<notin> set rs" by simp
    then have "room_entry (fold (perRoom_room_b64 e n rent lost) (x # rs) m) r =
        room_entry (perRoom_room_b64 e n rent lost x m) r"
      by (simp add: room_entry_fold_b64_other)
    with True show ?thesis by (simp add: room_entry_perRoom_room_b64)
  next
    case False
    with Cons.prems have "distinct rs" and "r \<in> set rs" by auto
    from Cons.IH [OF this] False show ?thesis
      by (simp add: room_entry_perRoom_room_b64_other)
  qed
qed

lemma perRoom_event_b64_fold:
  "perRoom_event_b64 tza e m =
     fold (perRoom_room_b64 e (Fin (real (max 1 (length (rooms e)))))
             (rentalPart_b64 tza e) (lostFor_b64 tza e))
       (rooms e) m"
  by (simp add: perRoom_event_b64_def Let_def)

lemma room_entry_perRoom_event_b64:
  assumes "distinct (rooms e)" and "r \<in> set (rooms e)"
  shows "room_entry (perRoom_event_b64 tza e m) r =
     (room_entry m r)\<lparr>
        room_events := room_events (room_entry m r) + 1,
        room_revenue := b64_add (room_revenue (room_entry m r))
           (if status e = Taken then b64_div (rentalPart_b64 tza e) (Fin (real (length (rooms e))))
            else Fin 0),
        room_lost := b64_add (room_lost (room_entry m r))
           (b64_div (lostFor_b64 tza e) (Fin (real (length (rooms e))))),
        room_guests := b64_add (room_guests (room_entry m r))
           (if status e = Taken then js_or (guests e) (Fin 0) else Fin 0) \<rparr>"
proof -
  from assms(2) have "rooms e \<noteq> []" by auto
  then have "max 1 (length (rooms e)) = length (rooms e)"
    by (cases "rooms e") simp_all
  then show ?thesis
    using room_entry_fold_b64_at [OF assms] by (simp add: perRoom_event_b64_fold)
qed

lemma perRoom_b64_single_revenue:
  assumes "distinct (rooms e)" and "r \<in> set (rooms e)"
  shows "room_revenue (room_entry (perRoom_b64 tza [e]) r) =
     b64_add (Fin 0)
       (if status e = Taken then b64_div (rentalPart_b64 tza e) (Fin (real (length (rooms e))))
        else Fin 0)"
  using room_entry_perRoom_event_b64 [OF assms, of tza perRoom_init]
  by (simp add: perRoom_b64_def room_entry_perRoom_init zero_room_def)

lemma perRoom_b64_shares:
  assumes "distinct (rooms e)"
  shows "map (\<lambda>r. room_revenue (room_entry (perRoom_b64 tza [e]) r)) (rooms e) =
     replicate (length (rooms e))
       (b64_add (Fin 0)
          (if status e = Taken then b64_div (rentalPart_b64 tza e) (Fin (real (length (rooms e))))
           else Fin 0))"
proof -
  let ?c = "b64_add (Fin 0)
       (if status e = Taken then b64_div (rentalPart_b64 tza e) (Fin (real (length (rooms e))))
        else Fin 0)"
  have "map (\<lambda>r. room_revenue (room_entry (perRoom_b64 tza [e]) r)) (rooms e) =
      map (\<lambda>r. ?c) (rooms e)"
    by (rule map_cong) (simp_all add: perRoom_b64_single_revenue [OF assms])
  also have "\<dots> = replicate (length (rooms e)) ?c"
    by (simp add: map_replicate_const)
  finally show ?thesis .
qed

lemma b64_add_zero_zero: "b64_add (Fin 0) (Fin 0) = Fin 0"
  by (simp add: b64_zero)

lemma b64_sum_zeros: "b64_sum (replicate n (Fin 0)) = Fin 0"
  unfolding b64_sum_def by (induction n) (simp_all add: b64_zero)

lemma Room_UNIV: "(UNIV :: Room set) = {Cafe, Hall, Backyard, Seminar_room, Conferences_room, Pavilion}"
proof -
  have "r \<in> {Cafe, Hall, Backyard, Seminar_room, Conferences_room, Pavilion}" for r
    by (cases r) simp_all
  then show ?thesis by blast
qed

lemma length_distinct_rooms:
  assumes "distinct (rs :: Room list)"
  shows "length rs \<le> 6"
proof -
  have "length rs = card (set rs)" using assms by (simp add: distinct_card)
  also have "\<dots> \<le> card (UNIV :: Room set)"
  proof (rule card_mono)
    show "finite (UNIV :: Room set)" by (simp add: Room_UNIV)
  qed simp
  also have "\<dots> = 6" by (simp add: Room_UNIV)
  finally show ?thesis .
qed

lemma rentalPart_b64_booking_fee: "rentalPart_b64 tza booking_fee = Fin 100"
  by (simp add: rentalPart_b64_def booking_fee_def booking_A_def)

lemma lostFor_b64_booking_fee: "lostFor_b64 tza booking_fee = Fin 0"
  by (simp add: lostFor_b64_def booking_fee_def booking_A_def)

lemma rentalPart_b64_booking_all_rooms: "rentalPart_b64 tza booking_all_rooms = Fin 100"
  by (simp add: rentalPart_b64_def booking_all_rooms_def booking_A_def)

lemma b64_fifty: "b64 50 = Fin 50"
  by (rule b64_eval [where k = 5 and m = 7036874417766400]) (simp_all add: round_even_def Let_def)

lemma replicate_six: "replicate 6 c = [c, c, c, c, c, c]"
  by (simp add: numeral_eq_Suc)

text \<open>
  With exact division and addition the N shares of a number add up to that number: the
  deviation of the program's sum comes from the rounding alone.
\<close>

lemma foldl_js_add_Fin:
  "foldl js_add (Fin s) (replicate k (Fin c)) = Fin (s + real k * c)"
  by (induction k arbitrary: s) (simp_all add: algebra_simps)

lemma foldl_js_add_same:
  "x = PInf \<or> x = NInf \<or> x = NaN \<Longrightarrow> foldl js_add x (replicate k x) = x"
  by (induction k) auto

lemma js_sum_shares:
  assumes "0 < n"
  shows "js_sum (replicate n (js_div x (Fin (real n)))) = x"
proof (cases x)
  case (Fin a)
  with assms show ?thesis by (simp add: js_sum_def foldl_js_add_Fin)
next
  case PInf
  from assms obtain k where "n = Suc k" by (cases n) auto
  with PInf show ?thesis by (simp add: js_sum_def inf_of_sign_def foldl_js_add_same)
next
  case NInf
  from assms obtain k where "n = Suc k" by (cases n) auto
  with NInf show ?thesis by (simp add: js_sum_def inf_of_sign_def foldl_js_add_same)
next
  case NaN
  from assms obtain k where "n = Suc k" by (cases n) auto
  with NaN show ?thesis by (simp add: js_sum_def foldl_js_add_same)
qed

lemma js_sum_zeros: "js_sum (replicate n (Fin 0)) = Fin 0"
  by (simp add: js_sum_def foldl_js_add_Fin)

text \<open>
  C3, the claim as stated, at a Taken booking of the six rooms with a fixed fee of 100.
  The revenue it alone gives to each room is \<open>100 / 6\<close> rounded, which is
  \<open>4691249611844267 / 2 ^ 48\<close> (printed 16.666666666666668). The six shares, added as the
  program adds numbers, give \<open>7036874417766401 / 2 ^ 46\<close> (printed 100.00000000000001),
  and added exactly they give \<open>100 + 2 / 2 ^ 48\<close>: in neither way the rental charge 100.
\<close>

theorem perRoom_share_sum_inexact:
  "status booking_all_rooms = Taken \<and> distinct (rooms booking_all_rooms) \<and>
   length (rooms booking_all_rooms) = 6 \<and>
   rentalPart_b64 0 booking_all_rooms = Fin 100 \<and>
   map (\<lambda>r. room_revenue (room_entry (perRoom_b64 0 [booking_all_rooms]) r)) (rooms booking_all_rooms)
     = replicate 6 (Fin (4691249611844267 / 2 ^ 48)) \<and>
   b64_sum (map (\<lambda>r. room_revenue (room_entry (perRoom_b64 0 [booking_all_rooms]) r))
              (rooms booking_all_rooms))
     = Fin (7036874417766401 / 2 ^ 46) \<and>
   Fin (7036874417766401 / 2 ^ 46) \<noteq> Fin 100 \<and>
   6 * (4691249611844267 / 2 ^ 48) \<noteq> (100 :: real)"
proof -
  have r: "rooms booking_all_rooms = ROOMS" and s: "status booking_all_rooms = Taken"
    by (simp_all add: booking_all_rooms_def booking_A_def)
  have d: "distinct (rooms booking_all_rooms)" and l: "length (rooms booking_all_rooms) = 6"
    by (simp_all add: r ROOMS_def)
  have m: "map (\<lambda>r. room_revenue (room_entry (perRoom_b64 0 [booking_all_rooms]) r))
        (rooms booking_all_rooms) = replicate 6 (Fin (4691249611844267 / 2 ^ 48))"
    by (simp only: perRoom_b64_shares [OF d] l s simp_thms if_True
        rentalPart_b64_booking_all_rooms of_nat_numeral share_steps)
  have t: "b64_sum (replicate 6 (Fin (4691249611844267 / 2 ^ 48))) = Fin (7036874417766401 / 2 ^ 46)"
    by (simp only: b64_sum_def replicate_six foldl.simps share_steps)
  have n1: "Fin (7036874417766401 / 2 ^ 46) \<noteq> Fin 100" by simp
  have n2: "6 * (4691249611844267 / 2 ^ 48) \<noteq> (100 :: real)" by simp
  show ?thesis
    by (intro conjI) (simp_all only: s d l m t rentalPart_b64_booking_all_rooms n1 n2, simp_all)
qed

text \<open>
  C3, amended. Let the rooms of a booking be N different rooms, N at least 1, and let the
  arithmetic be that of the program, binary64. Processing the booking adds to the revenue
  of each of its rooms the rental charge divided by N when the status is Taken and 0
  otherwise, and adds to the lost total of each of its rooms the lost revenue divided by
  N, whatever the status; the quotient and the new total are each rounded. The revenue
  that a Taken booking alone gives to its rooms, summed over the N rooms, is the rental
  charge \<open>x\<close> within floating tolerance: the sum differs from \<open>x\<close> by at most \<open>x / 2 ^ 49\<close>,
  for a rental charge that is 0 or lies between \<open>2 ^ (- 1000)\<close> and \<open>2 ^ 1000\<close>. For a
  booking that is not Taken that sum is 0. A booking without rooms changes no entry.
\<close>

theorem perRoom_rental_share_rounded:
  "(distinct (rooms e) \<and> r \<in> set (rooms e) \<longrightarrow>
      room_revenue (room_entry (perRoom_event_b64 tza e m) r) =
        b64_add (room_revenue (room_entry m r))
          (if status e = Taken then b64_div (rentalPart_b64 tza e) (Fin (real (length (rooms e))))
           else Fin 0) \<and>
      room_lost (room_entry (perRoom_event_b64 tza e m) r) =
        b64_add (room_lost (room_entry m r))
          (b64_div (lostFor_b64 tza e) (Fin (real (length (rooms e)))))) \<and>
   (distinct (rooms e) \<and> rooms e \<noteq> [] \<and> status e = Taken \<and> rentalPart_b64 tza e = Fin x \<and>
    (x = 0 \<or> 1 / 2 ^ 1000 \<le> x) \<and> x \<le> 2 ^ 1000 \<longrightarrow>
      (\<exists>s. b64_sum (map (\<lambda>r. room_revenue (room_entry (perRoom_b64 tza [e]) r)) (rooms e)) = Fin s \<and>
           \<bar>s - x\<bar> \<le> x / 2 ^ 49)) \<and>
   (distinct (rooms e) \<and> rooms e \<noteq> [] \<and> status e \<noteq> Taken \<longrightarrow>
      b64_sum (map (\<lambda>r. room_revenue (room_entry (perRoom_b64 tza [e]) r)) (rooms e)) = Fin 0) \<and>
   (rooms e = [] \<longrightarrow> perRoom_event_b64 tza e m = m)"
proof (intro conjI impI)
  assume a: "distinct (rooms e) \<and> r \<in> set (rooms e)"
  then have d: "distinct (rooms e)" and r: "r \<in> set (rooms e)" by simp_all
  show "room_revenue (room_entry (perRoom_event_b64 tza e m) r) =
        b64_add (room_revenue (room_entry m r))
          (if status e = Taken then b64_div (rentalPart_b64 tza e) (Fin (real (length (rooms e))))
           else Fin 0)"
    by (simp add: room_entry_perRoom_event_b64 [OF d r])
  show "room_lost (room_entry (perRoom_event_b64 tza e m) r) =
        b64_add (room_lost (room_entry m r))
          (b64_div (lostFor_b64 tza e) (Fin (real (length (rooms e)))))"
    by (simp add: room_entry_perRoom_event_b64 [OF d r])
next
  assume a: "distinct (rooms e) \<and> rooms e \<noteq> [] \<and> status e = Taken \<and> rentalPart_b64 tza e = Fin x \<and>
    (x = 0 \<or> 1 / 2 ^ 1000 \<le> x) \<and> x \<le> 2 ^ 1000"
  then have d: "distinct (rooms e)" and ne: "1 \<le> length (rooms e)" and s: "status e = Taken"
    and x: "rentalPart_b64 tza e = Fin x" and xn: "x = 0 \<or> 1 / 2 ^ 1000 \<le> x"
    and xu: "x \<le> 2 ^ 1000"
    by (simp_all add: Suc_le_eq)
  have le: "length (rooms e) \<le> 6" by (rule length_distinct_rooms [OF d])
  show "\<exists>s. b64_sum (map (\<lambda>r. room_revenue (room_entry (perRoom_b64 tza [e]) r)) (rooms e)) = Fin s \<and>
           \<bar>s - x\<bar> \<le> x / 2 ^ 49"
    using share_sum_tolerance [OF ne le xn xu]
    by (simp only: perRoom_b64_shares [OF d] s simp_thms if_True x)
next
  assume a: "distinct (rooms e) \<and> rooms e \<noteq> [] \<and> status e \<noteq> Taken"
  then have d: "distinct (rooms e)" and s: "status e \<noteq> Taken" by simp_all
  show "b64_sum (map (\<lambda>r. room_revenue (room_entry (perRoom_b64 tza [e]) r)) (rooms e)) = Fin 0"
    by (simp only: perRoom_b64_shares [OF d] s simp_thms if_False b64_add_zero_zero b64_sum_zeros)
next
  assume "rooms e = []"
  then show "perRoom_event_b64 tza e m = m" by (simp add: perRoom_event_b64_def)
qed

theorem perRoom_rental_share_rounded_witness:
  "distinct (rooms booking_fee) \<and> Cafe \<in> set (rooms booking_fee) \<and> rooms booking_fee \<noteq> [] \<and>
   status booking_fee = Taken \<and> rentalPart_b64 0 booking_fee = Fin 100 \<and>
   ((100::real) = 0 \<or> 1 / 2 ^ 1000 \<le> (100::real)) \<and> (100::real) \<le> 2 ^ 1000 \<and>
   room_revenue (room_entry (perRoom_event_b64 0 booking_fee perRoom_init) Cafe) = Fin 50 \<and>
   room_lost (room_entry (perRoom_event_b64 0 booking_fee perRoom_init) Cafe) = Fin 0 \<and>
   (\<exists>s. b64_sum (map (\<lambda>r. room_revenue (room_entry (perRoom_b64 0 [booking_fee]) r))
                    (rooms booking_fee)) = Fin s \<and> \<bar>s - 100\<bar> \<le> 100 / 2 ^ 49) \<and>
   status (booking_fee\<lparr>status := Booked\<rparr>) \<noteq> Taken \<and>
   b64_sum (map (\<lambda>r. room_revenue (room_entry (perRoom_b64 0 [booking_fee\<lparr>status := Booked\<rparr>]) r))
              (rooms (booking_fee\<lparr>status := Booked\<rparr>))) = Fin 0 \<and>
   rooms (booking_fee\<lparr>rooms := []\<rparr>) = [] \<and>
   perRoom_event_b64 0 (booking_fee\<lparr>rooms := []\<rparr>) perRoom_init = perRoom_init"
proof -
  have r: "rooms booking_fee = [Cafe, Hall]" and s: "status booking_fee = Taken"
    by (simp_all add: booking_fee_def booking_A_def)
  have rb: "rooms (booking_fee\<lparr>status := Booked\<rparr>) = [Cafe, Hall]" by (simp add: r)
  note t = perRoom_rental_share_rounded [where e = booking_fee and r = Cafe and tza = 0
      and m = perRoom_init and x = 100]
  note b = perRoom_rental_share_rounded [where e = "booking_fee\<lparr>status := Booked\<rparr>" and tza = 0
      and m = perRoom_init]
  note u = perRoom_rental_share_rounded [where e = "booking_fee\<lparr>rooms := []\<rparr>" and tza = 0
      and m = perRoom_init]
  have h: "(100::real) = 0 \<or> 1 / 2 ^ 1000 \<le> (100::real)" "(100::real) \<le> 2 ^ 1000"
    by simp_all
  from t have "room_revenue (room_entry (perRoom_event_b64 0 booking_fee perRoom_init) Cafe) = Fin 50"
    by (simp add: r s rentalPart_b64_booking_fee room_entry_perRoom_init zero_room_def b64_fifty b64_zero)
  moreover from t have "room_lost (room_entry (perRoom_event_b64 0 booking_fee perRoom_init) Cafe) = Fin 0"
    by (simp add: r s lostFor_b64_booking_fee room_entry_perRoom_init zero_room_def b64_fifty b64_zero)
  moreover from t h have
    "\<exists>s. b64_sum (map (\<lambda>r. room_revenue (room_entry (perRoom_b64 0 [booking_fee]) r))
                    (rooms booking_fee)) = Fin s \<and> \<bar>s - 100\<bar> \<le> 100 / 2 ^ 49"
    by (simp only: r s rentalPart_b64_booking_fee) simp
  moreover from b have
    "b64_sum (map (\<lambda>r. room_revenue (room_entry (perRoom_b64 0 [booking_fee\<lparr>status := Booked\<rparr>]) r))
              (rooms (booking_fee\<lparr>status := Booked\<rparr>))) = Fin 0"
    by (simp add: rb)
  moreover from u have "perRoom_event_b64 0 (booking_fee\<lparr>rooms := []\<rparr>) perRoom_init = perRoom_init"
    by simp
  ultimately show ?thesis using h by (simp add: r s rentalPart_b64_booking_fee)
qed

subsection \<open>Room inference\<close>

lemma distinct_Set_add: "distinct hits \<Longrightarrow> distinct (Set_add x hits)"
  by (simp add: Set_add_def)

lemma distinct_fold_hits:
  "distinct hits \<Longrightarrow>
   distinct (fold (\<lambda>r hits. if P r then Set_add (room r) hits else hits) rules hits)"
  by (induction rules arbitrary: hits) (simp_all add: distinct_Set_add)

text \<open>
  C10. For every summary, location and list of rules, the list of rooms that room
  inference returns holds each room at most once, also when several rules name the same
  room or several keywords of a rule match.
\<close>

theorem guessRooms_distinct: "distinct (guessRooms summary location rules)"
  by (simp add: guessRooms_def Let_def distinct_fold_hits)

lemma guessRooms_example:
  "guessRooms ''Team Meeting'' ''Cafe hall''
     [\<lparr>room = Cafe, kws = [''cafe'', ''barista'']\<rparr>, \<lparr>room = Hall, kws = [''hall'']\<rparr>,
      \<lparr>room = Cafe, kws = [''team'', ''meeting'']\<rparr>] = [Cafe, Hall]"
  by code_simp

subsection \<open>The year of a booking\<close>

lemma yearOf_eq: "yearOf tza e = Some (case Date_parse tza (date e) of
    InvalidDate \<Rightarrow> NaN
  | DateAt t \<Rightarrow> Fin (real_of_int (year_from_days ((t + tza) div msPerDay))))"
  by (simp add: yearOf_def new_Date_def getFullYear_def)

lemma yearOf_never_undefined: "yearOf tza e \<noteq> None"
  by (simp add: yearOf_eq)

lemma yearKey_never_em_dash: "yearOf tza e = Some NaN \<Longrightarrow> yearKey tza e = ''NaN''"
  by (simp add: yearKey_def js_String_def)

lemma Date_parse_TBD: "Date_parse tza ''TBD'' = InvalidDate"
  by (simp add: Date_parse_def)

text \<open>
  C4. The code at a booking whose date is the unparsable string \<^verbatim>\<open>TBD\<close>: no exception is
  raised, so the \<^verbatim>\<open>catch\<close> branch is not taken; the year is NaN and not \<^verbatim>\<open>undefined\<close>, and
  the per-year breakdown files the booking under the key \<^verbatim>\<open>NaN\<close>, while the key of the
  fallback, the em dash, has no bucket. At a booking dated 2024-01-01, in a time zone
  five hours west of UTC, the year is 2023: the date alone is read as UTC midnight and
  the year is taken in local time.
\<close>

theorem yearOf_unparsable_is_NaN:
  "yearOf tza booking_unparsable = Some NaN \<and>
   yearKey tza booking_unparsable = ''NaN'' \<and>
   perYear tza [booking_unparsable] em_dash = None \<and>
   perYear tza [booking_unparsable] ''NaN'' \<noteq> None \<and>
   yearOf (- 18000000) booking_new_year = Some (Fin 2023)"
proof -
  have y: "yearOf tza booking_unparsable = Some NaN"
    by (simp add: yearOf_eq booking_unparsable_def Date_parse_TBD)
  have k: "yearKey tza booking_unparsable = ''NaN''"
    by (rule yearKey_never_em_dash [OF y])
  have n: "''NaN'' \<noteq> em_dash"
    by (simp add: em_dash_def)
  have p: "perYear tza [booking_unparsable] em_dash = None"
    using n by (simp add: perYear_def perYear_event_def k Let_def)
  have q: "perYear tza [booking_unparsable] ''NaN'' \<noteq> None"
    by (simp add: perYear_def perYear_event_def k Let_def)
  have w: "yearOf (- 18000000) booking_new_year = Some (Fin 2023)"
    by code_simp
  from y k p q w show ?thesis by simp
qed

lemma yearOf_new_year_east: "yearOf 3600000 booking_new_year = Some (Fin 2024)"
  by code_simp

subsection \<open>Decoding a calendar date or date-time\<close>

lemma asLocal_date_shape:
  "is_date_shape s \<Longrightarrow>
   asLocal tza (Some s) =
     Some (new_Date_fields tza (int (dec_val (take 4 s))) (int (dec_val (take 2 (drop 4 s))) - 1)
             (int (dec_val (take 2 (drop 6 s)))) 0 0 0)"
  by (auto simp: asLocal_def is_date_shape_def Let_def)

lemma asLocal_absent: "asLocal tza None = None" "asLocal tza (Some []) = None"
  by (simp_all add: asLocal_def)

lemma is_datetime_shape_here: "is_datetime_shape s \<Longrightarrow> dt_here s"
  by (auto simp: is_datetime_shape_def dt_here_def)

lemma match_datetime_here: "dt_here s \<Longrightarrow> match_datetime s = Some (dt_groups s)"
  by (cases s) (simp_all add: dt_here_def)

lemma asLocal_datetime_shape:
  assumes "is_datetime_shape s"
  shows "asLocal tza (Some s) =
     (let y = int (dec_val (take 4 s));
          mo = int (dec_val (take 2 (drop 4 s))) - 1;
          d = int (dec_val (take 2 (drop 6 s)));
          hh = int (dec_val (take 2 (drop 9 s)));
          mm = int (dec_val (take 2 (drop 11 s)));
          ss = int (dec_val (take 2 (drop 13 s)))
      in Some (if length s = 16 then new_Date_value (Date_UTC y mo d hh mm ss)
               else new_Date_fields tza y mo d hh mm ss))"
proof -
  from assms have len: "length s = 15 \<or> (length s = 16 \<and> s ! 15 = CHR ''Z'')"
    and t: "s ! 8 = CHR ''T''"
    by (simp_all add: is_datetime_shape_def)
  have nd: "\<not> is_digit (CHR ''T'')" by (simp add: is_digit_def)
  from len t have "\<not> (length s = 8 \<and> all_digits s)" by auto
  moreover from len have "s \<noteq> []" by auto
  moreover have "match_datetime s = Some (dt_groups s)"
    by (rule match_datetime_here [OF is_datetime_shape_here [OF assms]])
  ultimately show ?thesis
    using len by (auto simp: asLocal_def dt_groups_def Let_def drop_take)
qed

lemma asLocal_decodes_iff:
  "asLocal tza (Some s) \<noteq> None \<longleftrightarrow> is_date_shape s \<or> match_datetime s \<noteq> None"
  by (cases s) (auto simp: asLocal_def is_date_shape_def Let_def split: option.splits prod.splits)

lemma asLocal_date_is_local_midnight:
  assumes "is_date_shape s" and "asLocal tza (Some s) = Some d" and "d \<noteq> InvalidDate"
  shows "local_time_of_day tza d = Some 0"
proof -
  from assms(1,2) have "d = new_Date_fields tza (int (dec_val (take 4 s)))
      (int (dec_val (take 2 (drop 4 s))) - 1) (int (dec_val (take 2 (drop 6 s)))) 0 0 0"
    by (simp add: asLocal_date_shape)
  with assms(3) show ?thesis
    by (simp add: new_Date_fields_def TimeClip_def MakeTime_def local_time_of_day_def
        split: if_splits)
qed

text \<open>
  C5. The code at the value \<^verbatim>\<open>20240115T090000.000Z\<close>, which is neither eight digits nor
  eight digits, \<^verbatim>\<open>T\<close>, six digits and an optional \<^verbatim>\<open>Z\<close>: it is decoded all the same, to
  the date that \<^verbatim>\<open>20240115T090000\<close> gives, local time although the value ends in
  \<^verbatim>\<open>Z\<close>. So is a value with characters before the digits.
\<close>

theorem asLocal_decodes_other_shape:
  "\<not> is_date_shape ''20240115T090000.000Z'' \<and>
   \<not> is_datetime_shape ''20240115T090000.000Z'' \<and>
   asLocal 3600000 (Some ''20240115T090000.000Z'') = Some (DateAt 1705305600000) \<and>
   asLocal 3600000 (Some ''20240115T090000'') = Some (DateAt 1705305600000) \<and>
   asLocal 3600000 (Some ''20240115T090000Z'') = Some (DateAt 1705309200000) \<and>
   \<not> is_date_shape ''x20240115T090000'' \<and>
   \<not> is_datetime_shape ''x20240115T090000'' \<and>
   asLocal 3600000 (Some ''x20240115T090000'') = Some (DateAt 1705305600000)"
  by code_simp

subsection \<open>Numbers and clock times written in digits\<close>

lemma digit_not_ws: "is_digit c \<Longrightarrow> \<not> js_ws c"
  by (auto simp: is_digit_def js_ws_def)

lemma digit_not_sign: "is_digit c \<Longrightarrow> c \<noteq> CHR ''+'' \<and> c \<noteq> CHR ''-'' \<and> c \<noteq> CHR '':'' \<and> c \<noteq> CHR ''I''"
  by (auto simp: is_digit_def)

lemma digit_not_radix:
  "is_digit c \<Longrightarrow> c \<noteq> CHR ''x'' \<and> c \<noteq> CHR ''X'' \<and> c \<noteq> CHR ''o'' \<and> c \<noteq> CHR ''O''
     \<and> c \<noteq> CHR ''b'' \<and> c \<noteq> CHR ''B''"
  by (auto simp: is_digit_def)

lemma js_trim_digits:
  assumes "all_digits s"
  shows "js_trim s = s"
proof (cases "s = []")
  case True
  then show ?thesis by (simp add: js_trim_def)
next
  case False
  from assms have d: "\<forall>c \<in> set s. is_digit c"
    by (simp add: all_digits_def list_all_iff)
  from False d have "\<not> js_ws (hd s)" and "\<not> js_ws (last s)"
    by (simp_all add: digit_not_ws)
  with False have "dropWhile js_ws s = s" and "dropWhile js_ws (rev s) = rev s"
    by (simp_all add: dropWhile_eq_self_iff hd_rev)
  then show ?thesis by (simp add: js_trim_def)
qed

lemma non_decimal_digits:
  assumes "all_digits s"
  shows "non_decimal s = None"
proof -
  from assms have d: "\<forall>c \<in> set s. is_digit c"
    by (simp add: all_digits_def list_all_iff)
  show ?thesis
  proof (cases s)
    case Nil
    then show ?thesis by (simp add: non_decimal_def)
  next
    case (Cons z t)
    show ?thesis
    proof (cases t)
      case Nil
      with Cons show ?thesis by (simp add: non_decimal_def)
    next
      case (Cons p ds)
      with \<open>s = z # t\<close> d have "is_digit p" by simp
      from digit_not_radix [OF this] Cons \<open>s = z # t\<close> show ?thesis
        by (simp add: non_decimal_def)
    qed
  qed
qed

lemma str_unsigned_decimal_digits:
  assumes "s \<noteq> []" and "all_digits s"
  shows "str_unsigned_decimal s = Fin (real (dec_val s))"
proof -
  from assms have d: "\<forall>c \<in> set s. is_digit c"
    by (simp add: all_digits_def list_all_iff)
  with assms(1) have "is_digit (hd s)" by simp
  then have "hd s \<noteq> CHR ''I''" by (simp add: digit_not_sign)
  then have n: "s \<noteq> ''Infinity''" by auto
  from d have t: "takeWhile is_digit s = s" and r: "dropWhile is_digit s = []"
    by simp_all
  show ?thesis
    using n assms(1) by (simp add: str_unsigned_decimal_def t r Let_def scale10_def dec_val_def)
qed

lemma StringToNumber_digits:
  assumes "s \<noteq> []" and "all_digits s"
  shows "StringToNumber s = Fin (real (dec_val s))"
proof -
  from assms obtain c r where s: "s = c # r" by (cases s) auto
  with assms(2) have "is_digit c" by (simp add: all_digits_def)
  then have "c \<noteq> CHR ''+''" and "c \<noteq> CHR ''-''" by (simp_all add: digit_not_sign)
  then show ?thesis
    using js_trim_digits [OF assms(2)] non_decimal_digits [OF assms(2)]
      str_unsigned_decimal_digits [OF assms] s
    by (simp add: StringToNumber_def Let_def)
qed

lemma split_on_none: "c \<notin> set b \<Longrightarrow> split_on c b = [b]"
  by (induction b) auto

lemma split_on_first: "c \<notin> set a \<Longrightarrow> split_on c (a @ c # b) = a # split_on c b"
  by (induction a) auto

lemma split_on_clock:
  assumes "is_clock s"
  shows "split_on CHR '':'' s = [take 2 s, drop 3 s]"
proof -
  from assms have l: "length s = 5" and c: "s ! 2 = CHR '':''"
    and a: "all_digits (take 2 s)" and b: "all_digits (drop 3 s)"
    by (simp_all add: is_clock_def)
  from l c have s: "s = take 2 s @ CHR '':'' # drop 3 s"
    using id_take_nth_drop [of 2 s] by simp
  have na: "CHR '':'' \<notin> set (take 2 s)"
    using a digit_not_sign by (auto simp: all_digits_def list_all_iff)
  have nb: "CHR '':'' \<notin> set (drop 3 s)"
    using b digit_not_sign by (auto simp: all_digits_def list_all_iff)
  have "split_on CHR '':'' (take 2 s @ CHR '':'' # drop 3 s) = [take 2 s, drop 3 s]"
    by (simp add: split_on_first [OF na] split_on_none [OF nb])
  with s show ?thesis by simp
qed

lemma digit_val_le: "is_digit c \<Longrightarrow> digit_val c \<le> 9"
  by (auto simp: is_digit_def digit_val_def)

lemma foldl_digits_bound:
  "\<forall>c \<in> set s. is_digit c \<Longrightarrow>
   foldl (\<lambda>n c. 10 * n + digit_val c) k s < (k + 1) * 10 ^ length s"
proof (induction s arbitrary: k)
  case Nil
  then show ?case by simp
next
  case (Cons c s)
  then have "digit_val c \<le> 9" by (simp add: digit_val_le)
  then have "(10 * k + digit_val c + 1) * 10 ^ length s \<le> (k + 1) * 10 ^ length (c # s)"
    by (simp add: algebra_simps)
  moreover from Cons have
    "foldl (\<lambda>n c. 10 * n + digit_val c) (10 * k + digit_val c) s
       < (10 * k + digit_val c + 1) * 10 ^ length s"
    by simp
  ultimately show ?case by simp
qed

lemma dec_val_bound: "all_digits s \<Longrightarrow> dec_val s < 10 ^ length s"
  using foldl_digits_bound [of s 0] by (simp add: dec_val_def all_digits_def list_all_iff)

lemma days_from_civil_bounds:
  assumes "0 \<le> y" "y \<le> 9999" "1 \<le> m" "m \<le> 12" "1 \<le> d" "d \<le> 31"
  shows "- 1000000 \<le> days_from_civil y m d \<and> days_from_civil y m d \<le> 3000000"
proof -
  define y' where "y' = (if m \<le> 2 then y - 1 else y)"
  define mp where "mp = (if 2 < m then m - 3 else m + 9)"
  define yoe where "yoe = y' - y' div 400 * 400"
  from assms have y': "- 1 \<le> y'" "y' \<le> 9999" by (simp_all add: y'_def)
  from assms have mp: "0 \<le> mp" "mp \<le> 11" by (simp_all add: mp_def)
  have era: "- 1 \<le> y' div 400" "y' div 400 \<le> 24"
    using zdiv_mono1 [of "- 1" y' 400] zdiv_mono1 [of y' 9999 400] y' by simp_all
  have "yoe = y' mod 400" by (simp add: yoe_def minus_div_mult_eq_mod)
  then have yoe: "0 \<le> yoe" "yoe \<le> 399" by simp_all
  have q: "0 \<le> yoe div 4" "yoe div 4 \<le> 99" "0 \<le> yoe div 100" "yoe div 100 \<le> 3"
    using zdiv_mono1 [of 0 yoe 4] zdiv_mono1 [of yoe 399 4]
      zdiv_mono1 [of 0 yoe 100] zdiv_mono1 [of yoe 399 100] yoe by simp_all
  have r: "0 \<le> (153 * mp + 2) div 5" "(153 * mp + 2) div 5 \<le> 337"
    using zdiv_mono1 [of 0 "153 * mp + 2" 5] zdiv_mono1 [of "153 * mp + 2" 1685 5] mp by simp_all
  have "days_from_civil y m d =
      y' div 400 * 146097 + (yoe * 365 + yoe div 4 - yoe div 100 + ((153 * mp + 2) div 5 + d - 1)) - 719468"
    by (simp add: days_from_civil_def Let_def y'_def mp_def yoe_def)
  with era yoe q r assms(5,6) show ?thesis by linarith
qed

lemma iso_date_part_bounds:
  assumes "iso_date_part s = Some dn"
  shows "length s = 10 \<and> - 1000000 \<le> dn \<and> dn \<le> 3000000"
proof -
  let ?y = "int (dec_val (take 4 s))"
  let ?m = "int (dec_val (take 2 (drop 5 s)))"
  let ?d = "int (dec_val (drop 8 s))"
  from assms have l: "length s = 10" and a: "all_digits (take 4 s)"
    by (auto simp: iso_date_part_def split: if_splits)
  from assms have v: "1 \<le> ?m" "?m \<le> 12" "1 \<le> ?d" "?d \<le> days_in_month ?y ?m"
    and dn: "dn = days_from_civil ?y ?m ?d"
    by (auto simp: iso_date_part_def Let_def split: if_splits)
  have "days_in_month ?y ?m \<le> 31" by (simp add: days_in_month_def)
  with v have d31: "?d \<le> 31" by linarith
  from dec_val_bound [OF a] l have "dec_val (take 4 s) < 10000" by simp
  then have y: "0 \<le> ?y" "?y \<le> 9999" by simp_all
  from days_from_civil_bounds [OF y v(1,2,3) d31] dn l show ?thesis by simp
qed

lemma iso_time_part_midnight: "iso_time_part ''00:00:00'' = Some 0"
  by code_simp

lemma TimeClip_in_range: "\<bar>t\<bar> \<le> 8640000000000000 \<Longrightarrow> TimeClip t = DateAt t"
  by (simp add: TimeClip_def)

lemma Date_parse_local_midnight:
  assumes "iso_date_part d = Some dn" and "\<bar>tza\<bar> \<le> msPerDay"
  shows "Date_parse tza (d @ ''T00:00:00'') = DateAt (dn * msPerDay - tza)"
proof -
  from iso_date_part_bounds [OF assms(1)]
  have l: "length d = 10" and b: "- 1000000 \<le> dn" "dn \<le> 3000000" by simp_all
  from b assms(2) have "\<bar>dn * msPerDay - tza\<bar> \<le> 8640000000000000"
    by (simp add: msPerDay_def)
  then have "TimeClip (dn * msPerDay - tza) = DateAt (dn * msPerDay - tza)"
    by (rule TimeClip_in_range)
  then show ?thesis
    using l assms(1) by (simp add: Date_parse_def nth_append iso_time_part_midnight)
qed

lemma js_trunc_of_nat: "js_trunc (real n) = int n"
  by (simp add: js_trunc_def)

lemma or_zero_Fin: "or_zero (Some (Fin x)) = Fin x"
  by (simp add: or_zero_def js_or_def js_truthy_def)

subsection \<open>Duration of a booking\<close>

lemma parseTime_eq:
  "parseTime tza dateStr timeStr =
     setHours tza (Date_parse tza (dateStr @ ''T00:00:00''))
       (or_zero (at_index (map StringToNumber
          (split_on CHR '':'' (if timeStr = [] then ''0:0'' else timeStr))) 0))
       (or_zero (at_index (map StringToNumber
          (split_on CHR '':'' (if timeStr = [] then ''0:0'' else timeStr))) 1))"
  by (simp add: parseTime_def parseTime_try_def new_Date_def Let_def)

lemma parseTime_invalid_date:
  "Date_parse tza (dateStr @ ''T00:00:00'') = InvalidDate \<Longrightarrow>
   parseTime tza dateStr timeStr = InvalidDate"
  by (simp add: parseTime_eq setHours_def)

lemma durationHrs_valid:
  assumes "parseTime tza (date e) (start e) = DateAt s"
    and "parseTime tza (date e) (end' e) = DateAt en"
  shows "durationHrs tza e = Fin (max 0 (real_of_int (en - s) / 3600000))"
  using assms by (simp add: durationHrs_def Let_def getTime_def js_sub_def Math_max_def max_def)

lemma durationHrs_invalid:
  assumes "parseTime tza (date e) (start e) = InvalidDate
     \<or> parseTime tza (date e) (end' e) = InvalidDate"
  shows "durationHrs tza e = NaN"
proof -
  have a: "js_sub NaN x = NaN" for x by (simp add: js_sub_def)
  have b: "js_sub x NaN = NaN" for x by (cases x) (simp_all add: js_sub_def)
  from assms show ?thesis
    by (auto simp: durationHrs_def Let_def getTime_def a b Math_max_def)
qed

lemma durationHrs_never_negative: "\<not> js_lt (durationHrs tza e) (Fin 0)"
proof -
  have "\<not> js_gt (Fin 0) (Math_max (Fin 0) x)" for x
    by (cases x) (simp_all add: Math_max_def)
  then show ?thesis by (simp add: durationHrs_def Let_def js_lt_def)
qed

lemma parseTime_clock:
  assumes "is_clock s" and "iso_date_part d = Some dn" and "\<bar>tza\<bar> \<le> msPerDay"
  shows "parseTime tza d s = DateAt (dn * msPerDay + clock_minutes s * 60000 - tza)"
proof -
  let ?h = "dec_val (take 2 s)" and ?m = "dec_val (drop 3 s)"
  from assms(1) have l: "length s = 5" and a: "all_digits (take 2 s)" and b: "all_digits (drop 3 s)"
    by (simp_all add: is_clock_def)
  from l have ne: "s \<noteq> []" "take 2 s \<noteq> []" "drop 3 s \<noteq> []" by auto
  have parts: "map StringToNumber (split_on CHR '':'' s) = [Fin (real ?h), Fin (real ?m)]"
    by (simp add: split_on_clock [OF assms(1)] StringToNumber_digits [OF ne(2) a]
        StringToNumber_digits [OF ne(3) b])
  from dec_val_bound [OF a] dec_val_bound [OF b] l
  have hb: "?h < 100" and mb: "?m < 100" by simp_all
  from iso_date_part_bounds [OF assms(2)] have db: "- 1000000 \<le> dn" "dn \<le> 3000000" by simp_all
  have nz: "msPerDay \<noteq> 0"
    by (simp add: msPerDay_def)
  have "\<bar>dn * msPerDay + MakeTime (int ?h) (int ?m) 0 0 - tza\<bar> \<le> 8640000000000000"
    using hb mb db assms(3) by (simp add: msPerDay_def MakeTime_def)
  then have clip: "TimeClip (dn * msPerDay + MakeTime (int ?h) (int ?m) 0 0 - tza)
      = DateAt (dn * msPerDay + MakeTime (int ?h) (int ?m) 0 0 - tza)"
    by (rule TimeClip_in_range)
  have "parseTime tza d s = DateAt (dn * msPerDay + MakeTime (int ?h) (int ?m) 0 0 - tza)"
    using ne(1) by (simp add: parseTime_eq parts at_index_def or_zero_Fin setHours_def
        Date_parse_local_midnight [OF assms(2,3)] js_trunc_of_nat nz clip)
  also have "MakeTime (int ?h) (int ?m) 0 0 = clock_minutes s * 60000"
    by (simp add: MakeTime_def clock_minutes_def)
  finally show ?thesis .
qed

lemma durationHrs_clock:
  assumes "is_clock (start e)" and "is_clock (end' e)" and "iso_date_part (date e) = Some dn"
    and "\<bar>tza\<bar> \<le> msPerDay"
  shows "durationHrs tza e =
     Fin (max 0 (real_of_int (clock_minutes (end' e) - clock_minutes (start e)) / 60))"
proof -
  have "durationHrs tza e =
      Fin (max 0 (real_of_int ((dn * msPerDay + clock_minutes (end' e) * 60000 - tza)
             - (dn * msPerDay + clock_minutes (start e) * 60000 - tza)) / 3600000))"
    by (rule durationHrs_valid) (simp_all add: parseTime_clock [OF _ assms(3,4)] assms(1,2))
  also have "real_of_int ((dn * msPerDay + clock_minutes (end' e) * 60000 - tza)
             - (dn * msPerDay + clock_minutes (start e) * 60000 - tza)) / 3600000
      = real_of_int (clock_minutes (end' e) - clock_minutes (start e)) / 60"
    by simp
  finally show ?thesis .
qed

lemma parseTime_booking_A:
  "parseTime 3600000 (date booking_A) (start booking_A) = DateAt 1705305600000"
  "parseTime 3600000 (date booking_A) (end' booking_A) = DateAt 1705314600000"
  "parseTime 3600000 (date booking_A) ''12:00'' = DateAt 1705316400000"
  by code_simp+

lemma durationHrs_end_before_start:
  "durationHrs 3600000 (booking_A\<lparr>start := ''12:00''\<rparr>) = Fin 0"
proof -
  have "durationHrs 3600000 (booking_A\<lparr>start := ''12:00''\<rparr>) =
      Fin (max 0 (real_of_int (1705314600000 - 1705316400000) / 3600000))"
    by (rule durationHrs_valid) (simp_all add: parseTime_booking_A)
  then show ?thesis by simp
qed

text \<open>
  The lemmas above describe the duration where both points in time are valid dates. In
  \<open>durationHrs_valid\<close> the two points are whatever the engine makes of the date and the
  clock times. \<open>parseTime_clock\<close> and \<open>durationHrs_clock\<close> compute them for a local zone
  whose offset from UTC is the same at both points; where the offset changes between
  start and end (a change to or from daylight saving time) the points are further apart
  or closer than the clock times say, and those two lemmas do not apply.
\<close>

lemma parseTime_try_never_raises: "parseTime_try tza dateStr timeStr \<noteq> Inl x"
  by (simp add: parseTime_try_def new_Date_def Let_def)

lemma Date_parse_basic_date: "Date_parse tza (''20240115'' @ ''T00:00:00'') = InvalidDate"
  by (simp add: Date_parse_def)

text \<open>
  C6. The code at a booking whose date is the unparsable string \<^verbatim>\<open>TBD\<close>, from 10:00 to
  09:00, in any time zone: constructing the date raises no exception, so the body of the
  \<^verbatim>\<open>try\<close> in \<^verbatim>\<open>parseTime\<close> completes with an invalid date and the \<^verbatim>\<open>catch\<close> branch is not
  taken. The end is not after the start, and the duration is NaN: it is not zero, and it
  is not a number floored at 0. The same happens at a booking dated \<^verbatim>\<open>20240115\<close>, from
  09:00 to 11:30; its rental charge at the hourly rate and its revenue are NaN as well.
\<close>

theorem durationHrs_unparsable_is_NaN:
  "parseTime_try tza (date booking_unparsable) (start booking_unparsable) = Inr InvalidDate \<and>
   parseTime_try tza (date booking_unparsable) (end' booking_unparsable) = Inr InvalidDate \<and>
   \<not> js_gt (getTime (parseTime tza (date booking_unparsable) (end' booking_unparsable)))
         (getTime (parseTime tza (date booking_unparsable) (start booking_unparsable))) \<and>
   durationHrs tza booking_unparsable = NaN \<and>
   durationHrs tza booking_unparsable \<noteq> Fin 0 \<and>
   \<not> js_gt (durationHrs tza booking_unparsable) (Fin 0) \<and>
   durationHrs tza booking_basic_date = NaN \<and>
   rentalPart tza booking_basic_date = NaN \<and>
   revenueFor tza booking_basic_date = NaN"
proof -
  have d: "Date_parse tza (date booking_unparsable @ ''T00:00:00'') = InvalidDate"
    by (simp add: booking_unparsable_def Date_parse_def)
  have t: "parseTime_try tza (date booking_unparsable) s = Inr InvalidDate" for s
    by (simp add: parseTime_try_def new_Date_def Let_def d setHours_def)
  have p: "parseTime tza (date booking_unparsable) s = InvalidDate" for s
    by (rule parseTime_invalid_date [OF d])
  have u: "durationHrs tza booking_unparsable = NaN"
    by (rule durationHrs_invalid) (simp add: p)
  have b: "Date_parse tza (date booking_basic_date @ ''T00:00:00'') = InvalidDate"
    using Date_parse_basic_date by (simp add: booking_basic_date_def)
  have q: "parseTime tza (date booking_basic_date) s = InvalidDate" for s
    by (rule parseTime_invalid_date [OF b])
  have v: "durationHrs tza booking_basic_date = NaN"
    by (rule durationHrs_invalid) (simp add: q)
  have r: "rentalPart tza booking_basic_date = NaN"
    by (simp add: rentalPart_def v) (simp add: booking_basic_date_def booking_A_def)
  have w: "revenueFor tza booking_basic_date = NaN"
    by (simp add: revenueFor_def r Let_def) (simp add: booking_basic_date_def booking_A_def)
  from t p u v r w show ?thesis by (simp add: getTime_def)
qed

subsection \<open>Order of the filtered list\<close>

lemma str_less_irrefl: "\<not> str_less s s"
  by (induction s) simp_all

lemma compareDate_equal_dates:
  "date a = date b \<Longrightarrow> compareDate a b = - 1 \<and> compareDate b a = - 1"
  by (simp add: compareDate_def js_str_gt_def str_less_irrefl)

lemma compareDate_never_zero: "compareDate a b \<noteq> 0"
  by (simp add: compareDate_def)

lemma v8_sort_reverses_tie:
  "date a = date b \<Longrightarrow> filtered (\<lambda>e. True) [a, b] = Some [b, a]"
  using compareDate_equal_dates [of a b]
  by (simp add: filtered_def v8_sort_def CountAndMakeRun_def Let_def)

lemma v8_sort_keeps_ascending_pair:
  "js_str_gt (date b) (date a) \<Longrightarrow> filtered (\<lambda>e. True) [a, b] = Some [a, b]"
  by (simp add: filtered_def v8_sort_def CountAndMakeRun_def Let_def compareDate_def)

text \<open>
  With the comparison function of the program, the sort model returns the bookings in
  ascending order of their date strings, on every list of fewer than 64 bookings: what
  the missing 0 costs is the order among equal dates only. The proof is for any
  comparison function whose negative answers form a total and transitive relation.
\<close>

declare insertion_point.simps [simp del]

lemma run_more_le: "run_more cmp desc prev xs \<le> length xs"
  by (induction xs arbitrary: prev) (simp_all add: Let_def)

lemma run_more_chain:
  "successively (\<lambda>a b. if desc then cmp b a < 0 else \<not> cmp b a < 0)
     (prev # take (run_more cmp desc prev xs) xs)"
  by (induction xs arbitrary: prev) (auto simp: Let_def)

lemma sorted_wrt_of_chain:
  assumes tr: "\<And>x y z. cmp x y < 0 \<Longrightarrow> cmp y z < 0 \<Longrightarrow> cmp x z < (0::int)"
    and "successively (\<lambda>a b. cmp a b < 0) xs"
  shows "sorted_wrt (\<lambda>a b. cmp a b < 0) xs"
proof -
  have "transp (\<lambda>a b. cmp a b < 0)"
    by (rule transpI) (rule tr)
  from successively_conv_sorted_wrt [OF this] assms(2) show ?thesis by blast
qed

lemma CountAndMakeRun_sorted:
  assumes tot: "\<And>x y. cmp x y < 0 \<or> cmp y x < (0::int)"
    and tr: "\<And>x y z. cmp x y < 0 \<Longrightarrow> cmp y z < 0 \<Longrightarrow> cmp x z < 0"
    and c: "CountAndMakeRun cmp xs = (n, ys)"
  shows "n \<le> length ys \<and> mset ys = mset xs \<and> sorted_wrt (\<lambda>a b. cmp a b < 0) (take n ys)"
proof (cases xs)
  case Nil
  with c show ?thesis by (auto simp: CountAndMakeRun_def)
next
  case (Cons x0 t)
  show ?thesis
  proof (cases t)
    case Nil
    with Cons c show ?thesis by (auto simp: CountAndMakeRun_def)
  next
    case (Cons x1 rest)
    define desc where "desc = (cmp x1 x0 < 0)"
    define k where "k = run_more cmp desc x1 rest"
    define pre where "pre = x0 # x1 # take k rest"
    have k: "k \<le> length rest" by (simp add: k_def run_more_le)
    have xs: "xs = x0 # x1 # rest" by (simp add: \<open>xs = x0 # t\<close> Cons)
    have n: "n = 2 + k" and ys: "ys = (if desc then rev pre else pre) @ drop k rest"
      using c by (auto simp: CountAndMakeRun_def xs Let_def desc_def k_def pre_def)
    have tk: "take n ys = (if desc then rev pre else pre)"
      using k by (simp add: n ys pre_def)
    have chain: "successively (\<lambda>a b. if desc then cmp b a < 0 else \<not> cmp b a < 0) pre"
      using run_more_chain [of desc cmp x1 rest]
      by (simp add: pre_def k_def desc_def)
    have "successively (\<lambda>a b. cmp a b < 0) (if desc then rev pre else pre)"
    proof (cases desc)
      case True
      with chain show ?thesis by simp
    next
      case False
      with chain have "successively (\<lambda>a b. \<not> cmp b a < 0) pre" by simp
      then have "successively (\<lambda>a b. cmp a b < 0) pre"
        by (rule successively_mono) (use tot in blast)
      with False show ?thesis by simp
    qed
    then have "sorted_wrt (\<lambda>a b. cmp a b < 0) (if desc then rev pre else pre)"
      using tr by (intro sorted_wrt_of_chain) blast+
    then have "sorted_wrt (\<lambda>a b. cmp a b < 0) (take n ys)"
      by (simp only: tk)
    moreover have "mset ys = mset xs"
    proof -
      have "mset (pre @ drop k rest) = mset xs"
        by (simp add: pre_def xs flip: mset_append)
      then show ?thesis by (simp add: ys)
    qed
    moreover from k have "n \<le> length ys" by (simp add: n ys pre_def)
    ultimately show ?thesis by simp
  qed
qed

lemma insertion_point_spec:
  "\<forall>x y z. cmp x y < 0 \<longrightarrow> cmp y z < 0 \<longrightarrow> cmp x z < (0::int) \<Longrightarrow>
     sorted_wrt (\<lambda>a b. cmp a b < 0) a \<Longrightarrow>
     left \<le> right \<Longrightarrow> right \<le> length a \<Longrightarrow>
     (\<forall>j < left. \<not> cmp p (a ! j) < 0) \<Longrightarrow>
     (\<forall>j. right \<le> j \<and> j < length a \<longrightarrow> cmp p (a ! j) < 0) \<Longrightarrow>
     insertion_point cmp p a left right \<le> length a \<and>
     (\<forall>j < insertion_point cmp p a left right. \<not> cmp p (a ! j) < 0) \<and>
     (\<forall>j. insertion_point cmp p a left right \<le> j \<and> j < length a \<longrightarrow> cmp p (a ! j) < 0)"
proof (induction cmp p a left right rule: insertion_point.induct)
  case (1 cmp pivot a left right)
  show ?case
  proof (cases "left < right")
    case False
    then have "insertion_point cmp pivot a left right = left"
      by (subst insertion_point.simps) simp
    with False "1.prems" show ?thesis by auto
  next
    case True
    define mid where "mid = left + (right - left) div 2"
    from True have m: "left \<le> mid" "mid < right" by (simp_all add: mid_def)
    with "1.prems" have ml: "mid < length a" by simp
    show ?thesis
    proof (cases "cmp pivot (a ! mid) < 0")
      case c: True
      have up: "\<forall>j. mid \<le> j \<and> j < length a \<longrightarrow> cmp pivot (a ! j) < 0"
      proof (intro allI impI)
        fix j assume j: "mid \<le> j \<and> j < length a"
        show "cmp pivot (a ! j) < 0"
        proof (cases "j = mid")
          case True
          with c show ?thesis by simp
        next
          case False
          with j have "mid < j" "j < length a" by simp_all
          with "1.prems"(2) have "cmp (a ! mid) (a ! j) < 0"
            by (simp add: sorted_wrt_iff_nth_less)
          with c "1.prems"(1) show ?thesis by blast
        qed
      qed
      have "insertion_point cmp pivot a left right = insertion_point cmp pivot a left mid"
        using True c by (simp add: insertion_point.simps [of cmp pivot a left right] mid_def Let_def)
      moreover have "insertion_point cmp pivot a left mid \<le> length a \<and>
          (\<forall>j < insertion_point cmp pivot a left mid. \<not> cmp pivot (a ! j) < 0) \<and>
          (\<forall>j. insertion_point cmp pivot a left mid \<le> j \<and> j < length a \<longrightarrow> cmp pivot (a ! j) < 0)"
        using "1.IH"(1) [OF True mid_def c "1.prems"(1,2)] m ml "1.prems"(5) up by simp
      ultimately show ?thesis by simp
    next
      case c: False
      have low: "\<forall>j < mid + 1. \<not> cmp pivot (a ! j) < 0"
      proof (intro allI impI)
        fix j assume j: "j < mid + 1"
        show "\<not> cmp pivot (a ! j) < 0"
        proof (cases "j = mid")
          case True
          with c show ?thesis by simp
        next
          case False
          with j have jm: "j < mid" by simp
          with ml "1.prems"(2) have le: "cmp (a ! j) (a ! mid) < 0"
            by (simp add: sorted_wrt_iff_nth_less)
          show ?thesis
          proof
            assume "cmp pivot (a ! j) < 0"
            with le "1.prems"(1) have "cmp pivot (a ! mid) < 0" by blast
            with c show False by simp
          qed
        qed
      qed
      have "insertion_point cmp pivot a left right = insertion_point cmp pivot a (mid + 1) right"
        using True c by (simp add: insertion_point.simps [of cmp pivot a left right] mid_def Let_def)
      moreover have "insertion_point cmp pivot a (mid + 1) right \<le> length a \<and>
          (\<forall>j < insertion_point cmp pivot a (mid + 1) right. \<not> cmp pivot (a ! j) < 0) \<and>
          (\<forall>j. insertion_point cmp pivot a (mid + 1) right \<le> j \<and> j < length a \<longrightarrow> cmp pivot (a ! j) < 0)"
        using "1.IH"(2) [OF True mid_def c "1.prems"(1,2)] m "1.prems"(4,6) low by simp
      ultimately show ?thesis by simp
    qed
  qed
qed

lemma insert_at_point_sorted:
  assumes tot: "\<forall>x y. cmp x y < 0 \<or> cmp y x < (0::int)"
    and tr: "\<forall>x y z. cmp x y < 0 \<longrightarrow> cmp y z < 0 \<longrightarrow> cmp x z < 0"
    and s: "sorted_wrt (\<lambda>a b. cmp a b < 0) a"
  shows "sorted_wrt (\<lambda>a b. cmp a b < 0)
     (take (insertion_point cmp p a 0 (length a)) a @ p # drop (insertion_point cmp p a 0 (length a)) a)"
proof -
  let ?i = "insertion_point cmp p a 0 (length a)"
  from insertion_point_spec [OF tr s, of 0 "length a" p]
  have i: "?i \<le> length a" and lo: "\<forall>j < ?i. \<not> cmp p (a ! j) < 0"
    and hi: "\<forall>j. ?i \<le> j \<and> j < length a \<longrightarrow> cmp p (a ! j) < 0"
    by simp_all
  have before: "\<forall>x \<in> set (take ?i a). cmp x p < 0"
  proof
    fix x assume "x \<in> set (take ?i a)"
    then obtain j where "j < ?i" and "x = a ! j"
      using i by (auto simp: in_set_conv_nth)
    with lo have "\<not> cmp p x < 0" by simp
    with tot show "cmp x p < 0" by blast
  qed
  have after: "\<forall>x \<in> set (drop ?i a). cmp p x < 0"
  proof
    fix x assume "x \<in> set (drop ?i a)"
    then obtain j where "j < length a - ?i" and "x = a ! (?i + j)"
      by (auto simp: in_set_conv_nth)
    with hi show "cmp p x < 0" by simp
  qed
  from s have "sorted_wrt (\<lambda>a b. cmp a b < 0) (take ?i a @ drop ?i a)" by simp
  then have parts: "sorted_wrt (\<lambda>a b. cmp a b < 0) (take ?i a)"
    "sorted_wrt (\<lambda>a b. cmp a b < 0) (drop ?i a)"
    unfolding sorted_wrt_append by blast+
  from parts before after tr show ?thesis
    by (simp add: sorted_wrt_append) blast
qed

lemma BinaryInsertionSort_sorted:
  assumes tot: "\<forall>x y. cmp x y < 0 \<or> cmp y x < (0::int)"
    and tr: "\<forall>x y z. cmp x y < 0 \<longrightarrow> cmp y z < 0 \<longrightarrow> cmp x z < 0"
  shows "sorted_wrt (\<lambda>a b. cmp a b < 0) placed \<Longrightarrow>
     sorted_wrt (\<lambda>a b. cmp a b < 0) (BinaryInsertionSort cmp placed rest) \<and>
     mset (BinaryInsertionSort cmp placed rest) = mset placed + mset rest"
proof (induction rest arbitrary: placed)
  case Nil
  then show ?case by simp
next
  case (Cons p rest)
  let ?i = "insertion_point cmp p placed 0 (length placed)"
  let ?q = "take ?i placed @ p # drop ?i placed"
  have "sorted_wrt (\<lambda>a b. cmp a b < 0) ?q"
    by (rule insert_at_point_sorted [OF tot tr Cons.prems])
  from Cons.IH [OF this] have
    "sorted_wrt (\<lambda>a b. cmp a b < 0) (BinaryInsertionSort cmp ?q rest)"
    "mset (BinaryInsertionSort cmp ?q rest) = mset ?q + mset rest"
    by simp_all
  moreover have "mset ?q = mset placed + {#p#}"
  proof -
    have "mset ?q = mset (take ?i placed @ drop ?i placed) + {#p#}"
      by (simp only: mset_append mset.simps) simp
    then show ?thesis by simp
  qed
  ultimately show ?case by (simp add: Let_def)
qed

lemma v8_sort_sorted:
  assumes tot: "\<forall>x y. cmp x y < 0 \<or> cmp y x < (0::int)"
    and tr: "\<forall>x y z. cmp x y < 0 \<longrightarrow> cmp y z < 0 \<longrightarrow> cmp x z < 0"
    and l: "length xs < 64"
  shows "\<exists>ys. v8_sort cmp xs = Some ys \<and> mset ys = mset xs \<and> sorted_wrt (\<lambda>a b. cmp a b < 0) ys"
proof (cases "length xs < 2")
  case True
  then have "xs = [] \<or> (\<exists>x. xs = [x])"
    by (cases xs) (auto simp: length_Suc_conv)
  with True l show ?thesis by (auto simp: v8_sort_def)
next
  case False
  obtain n ys where c: "CountAndMakeRun cmp xs = (n, ys)" by (cases "CountAndMakeRun cmp xs")
  from tot tr have r: "n \<le> length ys \<and> mset ys = mset xs \<and> sorted_wrt (\<lambda>a b. cmp a b < 0) (take n ys)"
    by (intro CountAndMakeRun_sorted [OF _ _ c]) blast+
  then have "sorted_wrt (\<lambda>a b. cmp a b < 0) (take n ys)" by simp
  from BinaryInsertionSort_sorted [OF tot tr this, of "drop n ys"]
  have "sorted_wrt (\<lambda>a b. cmp a b < 0) (BinaryInsertionSort cmp (take n ys) (drop n ys))"
    and "mset (BinaryInsertionSort cmp (take n ys) (drop n ys)) = mset (take n ys) + mset (drop n ys)"
    by simp_all
  moreover have "mset (take n ys) + mset (drop n ys) = mset ys"
    by (simp flip: mset_append)
  ultimately show ?thesis
    using False l c r by (simp add: v8_sort_def)
qed

lemma str_less_trans: "str_less a b \<Longrightarrow> str_less b c \<Longrightarrow> str_less a c"
proof (induction a b arbitrary: c rule: str_less.induct)
  case (2 y ys)
  then show ?case by (cases c) simp_all
next
  case (4 x xs y ys)
  then obtain z zs where c: "c = z # zs" by (cases c) auto
  with 4 show ?case by auto
qed simp_all

lemma str_less_total: "str_less a b \<or> a = b \<or> str_less b a"
proof (induction a b rule: str_less.induct)
  case (4 x xs y ys)
  have "(of_char x :: nat) < of_char y \<or> x = y \<or> (of_char y :: nat) < of_char x"
    by (metis linorder_neqE_nat of_char_eq_iff)
  with 4 show ?case by auto
qed simp_all

lemma compareDate_negative_iff: "compareDate a b < 0 \<longleftrightarrow> \<not> str_less (date b) (date a)"
  by (simp add: compareDate_def js_str_gt_def)

lemma filtered_sorted_by_date:
  assumes "length (filter passes events) < 64"
  shows "\<exists>ys. filtered passes events = Some ys \<and> mset ys = mset (filter passes events) \<and>
     sorted_wrt (\<lambda>a b. \<not> str_less (date b) (date a)) ys"
proof -
  have tot: "\<forall>x y. compareDate x y < 0 \<or> compareDate y x < 0"
    unfolding compareDate_negative_iff
    by (metis str_less_irrefl str_less_trans)
  have tr: "\<forall>x y z. compareDate x y < 0 \<longrightarrow> compareDate y z < 0 \<longrightarrow> compareDate x z < 0"
    unfolding compareDate_negative_iff
    by (metis str_less_total str_less_trans)
  from v8_sort_sorted [OF tot tr assms] show ?thesis
    by (simp add: filtered_def compareDate_negative_iff)
qed

text \<open>
  C8. The code at two bookings of the same date, \<open>booking_first\<close> before \<open>booking_second\<close>
  in the collection: the comparison function answers \<open>-1\<close> in both directions, never 0,
  so it is not a consistent comparison function, and the sort of the engine returns
  \<open>booking_second\<close> before \<open>booking_first\<close>: the original order of the tie is reversed.
\<close>

theorem filtered_reverses_equal_dates:
  "date booking_first = date booking_second \<and>
   booking_first \<noteq> booking_second \<and>
   compareDate booking_first booking_second = - 1 \<and>
   compareDate booking_second booking_first = - 1 \<and>
   filtered (\<lambda>e. True) [booking_first, booking_second] = Some [booking_second, booking_first]"
proof -
  have d: "date booking_first = date booking_second"
    by (simp add: booking_first_def booking_second_def)
  have n: "booking_first \<noteq> booking_second"
    by (simp add: booking_first_def booking_second_def booking_A_def)
  note c = compareDate_equal_dates [OF d]
  have "v8_sort compareDate [booking_first, booking_second] = Some [booking_second, booking_first]"
    using c by (simp add: v8_sort_def CountAndMakeRun_def Let_def)
  then show ?thesis
    using d n c by (simp add: filtered_def)
qed

subsection \<open>Coercion to a number\<close>

text \<open>
  C9, the claim as stated, at a symbol, at a big integer and at an object without a
  conversion to a primitive value (which JSON can describe): \<^verbatim>\<open>toNum\<close> raises a
  \<^verbatim>\<open>TypeError\<close>, so it does not return 0 there.
\<close>

theorem toNum_raises_counterexample:
  "toNum JSymbol = Inl TypeError \<and> toNum (JBigInt 1) = Inl TypeError \<and>
   toNum (JObj None) = Inl TypeError"
  by (simp add: toNum_def)

text \<open>
  C9, amended. \<^verbatim>\<open>toNum\<close> raises exactly when the numeric conversion of its argument
  raises, which is on a symbol, a big integer, or an object without a conversion to a
  primitive value. On every other argument it returns a number that is not NaN: 0 for
  \<^verbatim>\<open>null\<close>, \<^verbatim>\<open>undefined\<close>, the empty string and every argument whose numeric conversion is
  NaN, and the numeric conversion of the argument otherwise.
\<close>

theorem toNum_total_where_convertible:
  "(toNum v = Inl x \<longleftrightarrow> ToNumber v = Inl x) \<and>
   (ToNumber v = Inl x \<longleftrightarrow> x = TypeError \<and> (v = JSymbol \<or> (\<exists>n. v = JBigInt n) \<or> v = JObj None)) \<and>
   (ToNumber v = Inr n \<longrightarrow> toNum v = Inr (if n = NaN then Fin 0 else n)) \<and>
   toNum v \<noteq> Inr NaN \<and>
   (v = JNull \<or> v = JUndefined \<or> v = JStr [] \<or> v = JNum NaN \<longrightarrow> toNum v = Inr (Fin 0)) \<and>
   (n \<noteq> NaN \<longrightarrow> toNum (JNum n) = Inr n) \<and>
   (StringToNumber s = NaN \<longrightarrow> toNum (JStr s) = Inr (Fin 0)) \<and>
   (StringToNumber s \<noteq> NaN \<longrightarrow> toNum (JStr s) = Inr (StringToNumber s))"
proof -
  have e: "StringToNumber [] = Fin 0"
    by (simp add: StringToNumber_def js_trim_def)
  have r: "ToNumber v = Inl x \<longleftrightarrow> x = TypeError \<and> (v = JSymbol \<or> (\<exists>n. v = JBigInt n) \<or> v = JObj None)"
    by (cases v rule: ToNumber.cases) auto
  have a: "toNum v = Inl x \<longleftrightarrow> ToNumber v = Inl x"
    by (cases v rule: ToNumber.cases) (auto simp: toNum_def isNaN_def e)
  have b: "ToNumber v = Inr n \<longrightarrow> toNum v = Inr (if n = NaN then Fin 0 else n)"
    by (cases v rule: ToNumber.cases) (auto simp: toNum_def isNaN_def e)
  have c: "toNum v \<noteq> Inr NaN"
    by (cases v rule: ToNumber.cases) (auto simp: toNum_def isNaN_def e)
  have d: "v = JNull \<or> v = JUndefined \<or> v = JStr [] \<or> v = JNum NaN \<longrightarrow> toNum v = Inr (Fin 0)"
    by (auto simp: toNum_def isNaN_def)
  have f: "n \<noteq> NaN \<longrightarrow> toNum (JNum n) = Inr n"
    by (simp add: toNum_def isNaN_def)
  have g: "StringToNumber s = NaN \<longrightarrow> toNum (JStr s) = Inr (Fin 0)"
    by (simp add: toNum_def isNaN_def)
  have h: "StringToNumber s \<noteq> NaN \<longrightarrow> toNum (JStr s) = Inr (StringToNumber s)"
    by (auto simp: toNum_def isNaN_def e)
  from a r b c d f g h show ?thesis by blast
qed

lemma StringToNumber_examples:
  "StringToNumber ''12.5'' = Fin (25 / 2)" "StringToNumber ''abc'' = NaN"
  "StringToNumber ''  7 '' = Fin 7"
  by code_simp+

theorem toNum_total_where_convertible_witness:
  "toNum (JStr ''12.5'') = Inr (Fin (25 / 2)) \<and>
   toNum (JStr ''abc'') = Inr (Fin 0) \<and>
   toNum (JNum (Fin 3)) = Inr (Fin 3) \<and>
   toNum (JNum NaN) = Inr (Fin 0) \<and>
   toNum JNull = Inr (Fin 0) \<and>
   toNum JSymbol = Inl TypeError \<and>
   ToNumber JUndefined = Inr NaN \<and> toNum JUndefined = Inr (Fin 0)"
  using toNum_total_where_convertible [where v = "JStr ''12.5''" and s = "''12.5''" and n = "Fin 3"]
    toNum_total_where_convertible [where v = "JNum NaN" and s = "''abc''"]
    toNum_total_where_convertible [where v = JNull]
    toNum_total_where_convertible [where v = JSymbol and x = TypeError]
    toNum_total_where_convertible [where v = JUndefined and n = NaN]
  by (simp add: StringToNumber_examples)

end
